theory Spec2Isabelle
  imports Main "HOL-Library.Word"
begin

section \<open>JavaScript strings\<close>

text \<open>
  The client (\<^verbatim>\<open>src/game.js\<close>) is JavaScript. A JavaScript string is a sequence of
  UTF-16 code units, \<^verbatim>\<open>s.length\<close> counts code units and \<^verbatim>\<open>s[i]\<close> reads one, so a
  string is modelled as a list of 16-bit words. The file holds two revisions of the client,
  one after the other; the second (from line 906 on) is the later one and the one modelled
  here. Where the first revision differs, the text says so.
\<close>

type_synonym jschar = "16 word"
type_synonym jsstring = "jschar list"

definition js :: "string \<Rightarrow> jsstring" where
  \<comment> \<open>an ASCII literal of the source as a list of code units\<close>
  "js s = map (\<lambda>c. of_nat (of_char c)) s"

definition isSpace :: "jschar \<Rightarrow> bool" where
  \<comment> \<open>the code units matched by the regular expression class \<^verbatim>\<open>\s\<close> and stripped by
      \<^verbatim>\<open>String.prototype.trim\<close>: WhiteSpace and LineTerminator of ECMAScript\<close>
  "isSpace c \<longleftrightarrow>
     c \<in> set [0x09, 0x0A, 0x0B, 0x0C, 0x0D, 0x20, 0xA0, 0x1680,
               0x2028, 0x2029, 0x202F, 0x205F, 0x3000, 0xFEFF]
     \<or> (0x2000 \<le> c \<and> c \<le> 0x200A)"

definition trim :: "jsstring \<Rightarrow> jsstring" where
  \<comment> \<open>\<^verbatim>\<open>s.trim()\<close>\<close>
  "trim s = rev (dropWhile isSpace (rev (dropWhile isSpace s)))"

definition startsWith :: "jsstring \<Rightarrow> jsstring \<Rightarrow> bool" where
  \<comment> \<open>\<^verbatim>\<open>s.startsWith(p)\<close>\<close>
  "startsWith s p \<longleftrightarrow> take (length p) s = p"

definition isSpaceRun :: "jsstring \<Rightarrow> bool" where
  \<comment> \<open>\<^verbatim>\<open>/^\s+$/.test(word)\<close>: a non-empty string of whitespace only\<close>
  "isSpaceRun w \<longleftrightarrow> w \<noteq> [] \<and> list_all isSpace w"

text \<open>
  \<^verbatim>\<open>s.split(/(\s+)/)\<close>: the string is cut at every maximal run of whitespace and, the
  pattern having a capture group, the runs themselves are kept between the pieces. A string
  that begins (ends) with whitespace yields an empty first (last) piece, and the empty
  string yields one empty piece.
\<close>

function splitKeep :: "jsstring \<Rightarrow> jsstring list" where
  "splitKeep s =
     (case dropWhile (\<lambda>c. \<not> isSpace c) s of
        [] \<Rightarrow> [s]
      | c # r \<Rightarrow> takeWhile (\<lambda>c. \<not> isSpace c) s # takeWhile isSpace (c # r)
                 # splitKeep (dropWhile isSpace r))"
  by pat_completeness auto
termination
proof (relation "measure length")
  show "wf (measure length)" by simp
next
  fix s :: jsstring and c r
  assume d: "dropWhile (\<lambda>c. \<not> isSpace c) s = c # r"
  have "length (dropWhile isSpace r) \<le> length r"
    by (rule length_dropWhile_le)
  moreover have "length (c # r) \<le> length s"
    using length_dropWhile_le [of "\<lambda>c. \<not> isSpace c" s] d by simp
  ultimately show "(dropWhile isSpace r, s) \<in> measure length"
    by simp
qed

text \<open>\<^verbatim>\<open>s.split(/\s+/)\<close>: the same cut, the whitespace runs dropped.\<close>

function splitDrop :: "jsstring \<Rightarrow> jsstring list" where
  "splitDrop s =
     (case dropWhile (\<lambda>c. \<not> isSpace c) s of
        [] \<Rightarrow> [s]
      | c # r \<Rightarrow> takeWhile (\<lambda>c. \<not> isSpace c) s # splitDrop (dropWhile isSpace r))"
  by pat_completeness auto
termination
proof (relation "measure length")
  show "wf (measure length)" by simp
next
  fix s :: jsstring and c r
  assume d: "dropWhile (\<lambda>c. \<not> isSpace c) s = c # r"
  have "length (dropWhile isSpace r) \<le> length r"
    by (rule length_dropWhile_le)
  moreover have "length (c # r) \<le> length s"
    using length_dropWhile_le [of "\<lambda>c. \<not> isSpace c" s] d by simp
  ultimately show "(dropWhile isSpace r, s) \<in> measure length"
    by simp
qed

declare splitKeep.simps [simp del]
declare splitDrop.simps [simp del]

section \<open>The typing diff: \<^verbatim>\<open>updateTypingFeedback\<close>\<close>

text \<open>
  The function builds an HTML string: a whitespace piece of the target is appended as it is,
  and every character of a word is appended as
  \<^verbatim>\<open><span class="...">c</span>\<close> with one of four classes. The string is modelled by
  the sequence of its parts.
\<close>

datatype cls = Completed | Correct | Incorrect | Pending

datatype piece = Raw jsstring | Span cls jschar

record fb_loop =
  html :: "piece list"
  typedCharIndex :: nat
  expectedCharIndex :: nat
  wordIndex :: nat

definition currentSpans :: "jsstring \<Rightarrow> jsstring \<Rightarrow> piece list" where
  \<comment> \<open>the inner loop over the current word: positional comparison with the typed word\<close>
  "currentSpans typedWord word =
     map (\<lambda>j. if j < length typedWord
               then (if typedWord ! j = word ! j then Span Correct (word ! j)
                     else Span Incorrect (word ! j))
               else Span Pending (word ! j))
         [0 ..< length word]"

definition feedbackStep ::
  "jsstring list \<Rightarrow> jsstring list \<Rightarrow> nat \<Rightarrow> fb_loop \<Rightarrow> nat \<times> jsstring \<Rightarrow> fb_loop" where
  \<comment> \<open>one iteration of the loop over \<^verbatim>\<open>expectedWords\<close>, at index \<open>i\<close>\<close>
  "feedbackStep typedWords typedNonSpaceWords currentWordIndex st iw =
     (let i = fst iw; word = snd iw in
      if isSpaceRun word then
        st\<lparr>html := html st @ [Raw word],
           expectedCharIndex := expectedCharIndex st + length word,
           typedCharIndex :=
             (if i < length typedWords then typedCharIndex st + length (typedWords ! i)
              else typedCharIndex st)\<rparr>
      else
        (let isCurrentWord = (wordIndex st = currentWordIndex);
             isCompletedWord = (wordIndex st < currentWordIndex);
             typedWord = (if wordIndex st < length typedNonSpaceWords
                          then typedNonSpaceWords ! wordIndex st else [])
         in st\<lparr>html := html st @
                  (if isCompletedWord then map (Span Completed) word
                   else if isCurrentWord then currentSpans typedWord word
                   else map (Span Pending) word),
                wordIndex := wordIndex st + 1\<rparr>))"

definition feedbackHtml :: "jsstring \<Rightarrow> jsstring \<Rightarrow> piece list" where
  \<comment> \<open>the value of \<^verbatim>\<open>html\<close> when the loop ends\<close>
  "feedbackHtml expected typed =
     (let expectedWords = splitKeep expected;
          typedWords = splitKeep typed;
          typedNonSpaceWords = filter (\<lambda>w. length w > 0) (splitDrop typed);
          currentWordIndex =
            (if length typedNonSpaceWords > 0 then length typedNonSpaceWords - 1 else 0)
      in html (foldl (feedbackStep typedWords typedNonSpaceWords currentWordIndex)
                 \<lparr>html = [], typedCharIndex = 0, expectedCharIndex = 0, wordIndex = 0\<rparr>
                 (zip [0 ..< length expectedWords] expectedWords)))"

definition updateTypingFeedbackV1 :: "jsstring \<Rightarrow> jsstring \<Rightarrow> piece list" where
  \<comment> \<open>the first revision of the function (line 615): a comparison position by position,
      with no grouping by words and the whitespace of the target inside a span too\<close>
  "updateTypingFeedbackV1 expected typed =
     map (\<lambda>i. if i < length typed
               then (if typed ! i = expected ! i then Span Correct (expected ! i)
                     else Span Incorrect (expected ! i))
               else Span Pending (expected ! i))
         [0 ..< length expected]"

section \<open>The typing diff as the specification words it\<close>

text \<open>
  The specification describes the diff by words: the whitespace runs of the target are the
  word boundaries and are passed as they are; the words before the one in progress are
  rendered in the completed class; the word in progress is compared with the typed word
  position by position; the words after it are pending. The word in progress is the last
  word of the typed text. \<open>specDiff\<close> is that description, written without the split
  functions of the code.
\<close>

function runs :: "jsstring \<Rightarrow> jsstring list" where
  \<comment> \<open>the maximal runs of whitespace and of other characters, in order\<close>
  "runs [] = []"
| "runs (c # cs) =
     (if isSpace c then takeWhile isSpace (c # cs) # runs (dropWhile isSpace cs)
      else takeWhile (\<lambda>c. \<not> isSpace c) (c # cs) # runs (dropWhile (\<lambda>c. \<not> isSpace c) cs))"
  by pat_completeness auto
termination
proof (relation "measure length")
  show "wf (measure length)" by simp
next
  fix c :: jschar and cs
  show "(dropWhile isSpace cs, c # cs) \<in> measure length"
    using length_dropWhile_le [of isSpace cs] by simp
next
  fix c :: jschar and cs
  show "(dropWhile (\<lambda>c. \<not> isSpace c) cs, c # cs) \<in> measure length"
    using length_dropWhile_le [of "\<lambda>c. \<not> isSpace c" cs] by simp
qed

definition wordsOf :: "jsstring \<Rightarrow> jsstring list" where
  \<comment> \<open>the words of a text: its runs that are not whitespace\<close>
  "wordsOf s = filter (\<lambda>r. \<not> isSpaceRun r) (runs s)"

fun compareWord :: "jsstring \<Rightarrow> jsstring \<Rightarrow> piece list" where
  \<comment> \<open>a word of the target against the typed word, position by position\<close>
  "compareWord tw [] = []"
| "compareWord [] (c # cs) = Span Pending c # compareWord [] cs"
| "compareWord (t # ts) (c # cs) =
     Span (if t = c then Correct else Incorrect) c # compareWord ts cs"

fun specPieces :: "jsstring list \<Rightarrow> nat \<Rightarrow> nat \<Rightarrow> jsstring list \<Rightarrow> piece list" where
  \<comment> \<open>the runs of the target rendered, \<open>k\<close> counting the words met so far\<close>
  "specPieces typedWords inProgress k [] = []"
| "specPieces typedWords inProgress k (r # rs) =
     (if isSpaceRun r then Raw r # specPieces typedWords inProgress k rs
      else (if k < inProgress then map (Span Completed) r
            else if k = inProgress
                 then compareWord (if k < length typedWords then typedWords ! k else []) r
            else map (Span Pending) r)
           @ specPieces typedWords inProgress (Suc k) rs)"

definition specDiff :: "jsstring \<Rightarrow> jsstring \<Rightarrow> piece list" where
  "specDiff target typed =
     specPieces (wordsOf typed) (length (wordsOf typed) - 1) 0 (runs target)"

fun settled :: "piece \<Rightarrow> bool" where
  \<comment> \<open>a part of the output that is whitespace, or a character classified correct or
      completed\<close>
  "settled (Raw w) = True"
| "settled (Span c ch) = (c = Correct \<or> c = Completed)"

fun unsettled :: "piece \<Rightarrow> bool" where
  \<comment> \<open>a part of the output that is whitespace, or a character classified pending\<close>
  "unsettled (Raw w) = True"
| "unsettled (Span c ch) = (c = Pending)"

section \<open>Address normalisation in \<^verbatim>\<open>connect\<close>\<close>

definition normalizeUrl :: "jsstring \<Rightarrow> jsstring" where
  \<comment> \<open>the value of \<^verbatim>\<open>wsUrl\<close> handed to \<^verbatim>\<open>new WebSocket\<close>\<close>
  "normalizeUrl serverUrl =
     (let wsUrl = trim serverUrl in
      if startsWith wsUrl (js ''https://'') then js ''wss://'' @ drop 8 wsUrl
      else if startsWith wsUrl (js ''http://'') then js ''ws://'' @ drop 7 wsUrl
      else if \<not> startsWith wsUrl (js ''ws://'') \<and> \<not> startsWith wsUrl (js ''wss://'')
           then js ''ws://'' @ wsUrl
      else wsUrl)"

section \<open>\<^verbatim>\<open>parseInt\<close> and the timer field of the join form\<close>

text \<open>
  A JavaScript number is a double. The numbers \<^verbatim>\<open>parseInt\<close> can return are NaN, the two
  infinities, and doubles whose value is an integer, so a number is modelled by the
  integer it denotes, with NaN and the infinities apart (\<^verbatim>\<open>-0\<close> is falsy as \<^verbatim>\<open>0\<close> is and
  is not kept apart from it). \<open>toDouble\<close> is the conversion of a non-negative integer to
  the nearest double, ties going to the even significand: integers below \<open>2 ^ 53\<close> are
  doubles already, an integer of \<open>2 ^ 1024 - 2 ^ 970\<close> or more becomes Infinity (\<open>None\<close>), and
  one in between keeps its 53 leading bits, rounded.
\<close>

datatype jsnumber = NaN | Finite int | PosInfinity | NegInfinity

function bitLength :: "int \<Rightarrow> nat" where
  \<comment> \<open>the number of bits of a positive integer\<close>
  "bitLength n = (if n \<le> 0 then 0 else Suc (bitLength (n div 2)))"
  by pat_completeness auto
termination
  by (relation "measure nat") auto

definition roundTo53 :: "int \<Rightarrow> int" where
  \<comment> \<open>an integer of more than 53 bits cut to 53 bits, to nearest, ties to even\<close>
  "roundTo53 n =
     (let e = bitLength n - 53;
          m = n div 2 ^ e;
          r = n mod 2 ^ e;
          half = 2 ^ (e - 1)
      in (if half < r \<or> (r = half \<and> odd m) then m + 1 else m) * 2 ^ e)"

definition toDouble :: "int \<Rightarrow> int option" where
  "toDouble n =
     (if n < 9007199254740992 then Some n
      else if 2 ^ 1024 - 2 ^ 970 \<le> n then None
      else Some (roundTo53 n))"

text \<open>
  \<^verbatim>\<open>parseInt(string)\<close> with no radix, after ECMAScript: leading whitespace is skipped,
  one sign is read, a prefix \<^verbatim>\<open>0x\<close> or \<^verbatim>\<open>0X\<close> selects radix 16 (radix 10 otherwise),
  the longest run of digits of that radix is read, the result is NaN when the run is
  empty, and otherwise the signed integer the digits denote, converted to a double. (For a
  decimal run of more than 20 significant digits the standard lets an implementation read
  the digits after the 20th as zeros; the conversion here is the exact one.)
\<close>

definition digitValue :: "jschar \<Rightarrow> nat option" where
  "digitValue c =
     (if 0x30 \<le> c \<and> c \<le> 0x39 then Some (unat c - 0x30)
      else if 0x61 \<le> c \<and> c \<le> 0x7A then Some (unat c - 0x61 + 10)
      else if 0x41 \<le> c \<and> c \<le> 0x5A then Some (unat c - 0x41 + 10)
      else None)"

definition isDigitOf :: "nat \<Rightarrow> jschar \<Rightarrow> bool" where
  "isDigitOf R c = (case digitValue c of None \<Rightarrow> False | Some v \<Rightarrow> v < R)"

definition digitsValue :: "nat \<Rightarrow> jsstring \<Rightarrow> int" where
  \<comment> \<open>the integer a run of digits denotes in radix \<open>R\<close>\<close>
  "digitsValue R z =
     foldl (\<lambda>a c. a * int R + (case digitValue c of None \<Rightarrow> 0 | Some v \<Rightarrow> int v)) 0 z"

definition parseInt :: "jsstring \<Rightarrow> jsnumber" where
  "parseInt inputString =
     (let S0 = dropWhile isSpace inputString;
          negative = (S0 \<noteq> [] \<and> hd S0 = 0x2D);
          S1 = (if S0 \<noteq> [] \<and> (hd S0 = 0x2B \<or> hd S0 = 0x2D) then tl S0 else S0);
          hex = (2 \<le> length S1 \<and> (take 2 S1 = js ''0x'' \<or> take 2 S1 = js ''0X''));
          R = (if hex then 16 else 10);
          S2 = (if hex then drop 2 S1 else S1);
          Z = takeWhile (isDigitOf R) S2
      in if Z = [] then NaN
         else (case toDouble (digitsValue R Z) of
                 None \<Rightarrow> (if negative then NegInfinity else PosInfinity)
               | Some d \<Rightarrow> Finite (if negative then - d else d)))"

definition timerSecondsOf :: "jsstring \<Rightarrow> jsnumber" where
  \<comment> \<open>\<^verbatim>\<open>parseInt(elements.timerSecondsInput.value) || 30\<close>: NaN and 0 are falsy, every
      other number, an infinity too, is truthy\<close>
  "timerSecondsOf v =
     (case parseInt v of
        NaN \<Rightarrow> Finite 30
      | Finite n \<Rightarrow> if n = 0 then Finite 30 else Finite n
      | PosInfinity \<Rightarrow> PosInfinity
      | NegInfinity \<Rightarrow> NegInfinity)"

datatype json_number =
  JsonNull \<comment> \<open>the text \<^verbatim>\<open>null\<close>\<close>
  | JsonDigits int \<comment> \<open>the decimal digits of this integer, with its sign\<close>
  | JsonShortest int \<comment> \<open>the shortest decimal text that reads back as this double (an integer
      of magnitude \<^verbatim>\<open>2^53\<close> or more): it need not be the decimal expansion of the double\<close>

fun jsonNumber :: "jsnumber \<Rightarrow> json_number" where
  \<comment> \<open>an integral number as \<^verbatim>\<open>JSON.stringify\<close> writes it: NaN and the infinities become
      \<^verbatim>\<open>null\<close>, a finite number is written by \<^verbatim>\<open>Number::toString\<close>, which writes an integer
      below \<^verbatim>\<open>2^53\<close> in full\<close>
  "jsonNumber (Finite n) =
     (if \<bar>n\<bar> < 9007199254740992 then JsonDigits n else JsonShortest n)"
| "jsonNumber x = JsonNull"

section \<open>Messages and snapshots\<close>

datatype phase =
  WaitingForPlayers | SpellSelection | TargetSelection | Typing | Resolution | GameOver
  | OtherPhase jsstring \<comment> \<open>any tag other than the six the client names\<close>

record player =
  pid :: jsstring
  is_alive :: bool
  has_selected_spell :: bool
  has_selected_target :: bool
  has_finished_typing :: bool

record typing_info =
  incantation :: jsstring
  duration_ms :: int

record game_state =
  phase :: phase
  players :: "player list"
  typing_phase :: "typing_info option"
  phase_time_remaining_ms :: "int option"

record room_state =
  room_phase :: phase

datatype server_msg =
  JoinedRoom jsstring jsstring room_state \<comment> \<open>\<^verbatim>\<open>player_id\<close>, \<^verbatim>\<open>room_id\<close>, \<^verbatim>\<open>room_state\<close>\<close>
  | ErrorMsg jsstring
  | RoomUpdate room_state
  | GameUpdate game_state
  | Pong
  | UnknownMsg jsstring

datatype out_msg =
  JoinRoom (room_id: jsstring) (player_name: jsstring) (timer_seconds: json_number)
  | SelectSpell jsstring
  | SelectTarget "jsstring list"
  | SubmitTyping (typed_text: jsstring) (completion_time_ms: "int option")
  | PlayAgain
  | Ping

fun isSubmitTyping :: "out_msg \<Rightarrow> bool" where
  "isSubmitTyping (SubmitTyping t c) = True"
| "isSubmitTyping m = False"

section \<open>The client state and the browser around it\<close>

text \<open>
  The record holds the fields of the global \<^verbatim>\<open>state\<close> object, then what the browser keeps
  for the client: the clock read by \<^verbatim>\<open>Date.now()\<close>, the interval timers registered by
  \<^verbatim>\<open>setInterval\<close> with the closure each one runs, the timeouts of the automatic
  submission that have not fired yet, the frames written to the socket, and the few parts of
  the page the logic reads back or that carry handlers. \<^verbatim>\<open>setInterval\<close> returns a positive
  integer, so a handle that is not null is truthy. The display of the remaining seconds and
  the CSS classes are left out.
\<close>

datatype readyState = CONNECTING | OPEN | CLOSING | CLOSED

record socket =
  url :: jsstring
  ready :: readyState

datatype countdown =
  Challenge int \<comment> \<open>the closure of \<^verbatim>\<open>startTimer\<close>: \<^verbatim>\<open>endTime\<close>\<close>
  | ResolutionCountdown int int \<comment> \<open>the closure of \<^verbatim>\<open>startResolutionTimer\<close>:
      \<^verbatim>\<open>startTime\<close>, \<^verbatim>\<open>initialRemaining\<close>\<close>

datatype screen = LandingScreen | LobbyScreen | GameScreen | GameoverScreen

record world =
  ws :: "socket option"
  playerId :: "jsstring option"
  playerName :: "jsstring option"
  roomId :: "jsstring option"
  roomState :: "room_state option"
  gameState :: "game_state option"
  selectedSpell :: "jsstring option"
  selectedTarget :: "jsstring option"
  typingStartTime :: "int option"
  typingSubmitted :: bool
  timerInterval :: "nat option"
  now :: int
  intervals :: "(nat \<times> countdown) list"
  nextHandle :: nat
  pendingAutoSubmits :: nat
  sent :: "out_msg list"
  shownScreen :: screen
  connectionError :: "jsstring option"
  typingInput :: jsstring
  typingFeedback :: "piece list"
  oninput :: "jsstring option" \<comment> \<open>the incantation the input handler has captured\<close>
  submitHandlers :: bool \<comment> \<open>the click and Enter handlers are installed\<close>

definition init :: world where
  "init = \<lparr>ws = None, playerId = None, playerName = None, roomId = None, roomState = None,
           gameState = None, selectedSpell = None, selectedTarget = None,
           typingStartTime = None, typingSubmitted = False, timerInterval = None,
           now = 0, intervals = [], nextHandle = 1, pendingAutoSubmits = 0, sent = [],
           shownScreen = LandingScreen, connectionError = None, typingInput = [],
           typingFeedback = [], oninput = None, submitHandlers = False\<rparr>"

definition idKnown :: "world \<Rightarrow> bool" where
  \<comment> \<open>\<^verbatim>\<open>state.playerId\<close> is truthy: neither null nor the empty string\<close>
  "idKnown w = (case playerId w of None \<Rightarrow> False | Some i \<Rightarrow> i \<noteq> [])"

definition startKnown :: "world \<Rightarrow> bool" where
  \<comment> \<open>\<^verbatim>\<open>state.typingStartTime\<close> is truthy: neither null nor 0\<close>
  "startKnown w = (case typingStartTime w of None \<Rightarrow> False | Some t \<Rightarrow> t \<noteq> 0)"

definition startOrZero :: "world \<Rightarrow> int" where
  \<comment> \<open>\<^verbatim>\<open>state.typingStartTime\<close> in arithmetic: null counts as 0\<close>
  "startOrZero w = (case typingStartTime w of None \<Rightarrow> 0 | Some t \<Rightarrow> t)"

definition socketOpen :: "world \<Rightarrow> bool" where
  \<comment> \<open>\<^verbatim>\<open>state.ws && state.ws.readyState === WebSocket.OPEN\<close>\<close>
  "socketOpen w = (case ws w of None \<Rightarrow> False | Some s \<Rightarrow> ready s = OPEN)"

definition send :: "out_msg \<Rightarrow> world \<Rightarrow> world" where
  \<comment> \<open>\<^verbatim>\<open>state.ws.send(JSON.stringify(message))\<close>: an \<open>out_msg\<close> is the message as the frame
      carries it\<close>
  "send message w = (if socketOpen w then w\<lparr>sent := sent w @ [message]\<rparr> else w)"

definition showScreen :: "screen \<Rightarrow> world \<Rightarrow> world" where
  "showScreen sc w = w\<lparr>shownScreen := sc\<rparr>"

definition showError :: "jsstring \<Rightarrow> world \<Rightarrow> world" where
  "showError message w = w\<lparr>connectionError := Some message\<rparr>"

section \<open>The countdowns\<close>

definition setInterval :: "countdown \<Rightarrow> world \<Rightarrow> world" where
  \<comment> \<open>\<^verbatim>\<open>state.timerInterval = setInterval(..., 100)\<close>\<close>
  "setInterval cb w =
     w\<lparr>intervals := intervals w @ [(nextHandle w, cb)],
       nextHandle := Suc (nextHandle w),
       timerInterval := Some (nextHandle w)\<rparr>"

definition stopTimer :: "world \<Rightarrow> world" where
  "stopTimer w =
     (case timerInterval w of
        None \<Rightarrow> w
      | Some h \<Rightarrow> w\<lparr>intervals := filter (\<lambda>p. fst p \<noteq> h) (intervals w),
                     timerInterval := None\<rparr>)"

definition startTimer :: "int \<Rightarrow> world \<Rightarrow> world" where
  "startTimer durationMs w =
     (if timerInterval w \<noteq> None then w
      else setInterval (Challenge (startOrZero w + durationMs)) w)"

definition startResolutionTimer :: "world \<Rightarrow> world" where
  "startResolutionTimer w =
     (if timerInterval w \<noteq> None then w
      else case gameState w of
        None \<Rightarrow> w
      | Some game \<Rightarrow>
          (case phase_time_remaining_ms game of
             None \<Rightarrow> w
           | Some initialRemaining \<Rightarrow> setInterval (ResolutionCountdown (now w) initialRemaining) w))"

definition submitTyping :: "bool \<Rightarrow> world \<Rightarrow> world" where
  "submitTyping finished w =
     (if typingSubmitted w then w
      else
        (let w1 = w\<lparr>typingSubmitted := True\<rparr>;
             completionTime = (if finished then Some (now w1 - startOrZero w1) else None)
         in stopTimer (send (SubmitTyping (typingInput w1) completionTime) w1)))"

definition challengeTick :: "int \<Rightarrow> world \<Rightarrow> world" where
  \<comment> \<open>the interval callback of \<^verbatim>\<open>startTimer\<close>\<close>
  "challengeTick endTime w =
     (let remaining = max 0 (endTime - now w) in
      if remaining \<le> 0 then
        (let w1 = stopTimer w in
         if \<not> typingSubmitted w1 then submitTyping False w1 else w1)
      else w)"

definition resolutionTick :: "int \<Rightarrow> int \<Rightarrow> world \<Rightarrow> world" where
  \<comment> \<open>the interval callback of \<^verbatim>\<open>startResolutionTimer\<close>\<close>
  "resolutionTick startTime initialRemaining w =
     (let elapsed = now w - startTime;
          remaining = max 0 (initialRemaining - elapsed)
      in if remaining \<le> 0 then stopTimer w else w)"

fun runCountdown :: "countdown \<Rightarrow> world \<Rightarrow> world" where
  "runCountdown (Challenge endTime) w = challengeTick endTime w"
| "runCountdown (ResolutionCountdown startTime initialRemaining) w =
     resolutionTick startTime initialRemaining w"

section \<open>Rendering, as far as it changes state\<close>

definition updateTypingFeedback :: "jsstring \<Rightarrow> jsstring \<Rightarrow> world \<Rightarrow> world" where
  \<comment> \<open>\<^verbatim>\<open>elements.typingFeedback.innerHTML = html\<close>\<close>
  "updateTypingFeedback expected typed w = w\<lparr>typingFeedback := feedbackHtml expected typed\<rparr>"

definition renderTypingPhase :: "game_state \<Rightarrow> player \<Rightarrow> world \<Rightarrow> world" where
  "renderTypingPhase game self w =
     (if has_finished_typing self \<or> typingSubmitted w then w
      else case typing_phase game of
        None \<Rightarrow> w
      | Some typing \<Rightarrow>
          (let isFirstRender = \<not> startKnown w;
               w1 = (if isFirstRender
                     then startTimer (duration_ms typing)
                            (w\<lparr>typingInput := [], typingStartTime := Some (now w)\<rparr>)
                     else w);
               w2 = updateTypingFeedback (incantation typing) (typingInput w1) w1
           in w2\<lparr>oninput := Some (incantation typing), submitHandlers := True\<rparr>))"

definition renderGame :: "world \<Rightarrow> world" where
  "renderGame w =
     (case gameState w of
        None \<Rightarrow> w
      | Some game \<Rightarrow>
          if \<not> idKnown w then w
          else (case find (\<lambda>p. Some (pid p) = playerId w) (players game) of
                  None \<Rightarrow> w
                | Some self \<Rightarrow>
                    if \<not> is_alive self then w
                    else if phase game = Typing then renderTypingPhase game self w
                    else w))"

section \<open>The message handlers\<close>

definition handleJoinedRoom :: "jsstring \<Rightarrow> jsstring \<Rightarrow> room_state \<Rightarrow> world \<Rightarrow> world" where
  "handleJoinedRoom player_id room rs w =
     (let w1 = w\<lparr>playerId := Some player_id, roomId := Some room, roomState := Some rs\<rparr> in
      if room_phase rs = WaitingForPlayers then showScreen LobbyScreen w1
      else
        (let w2 = showScreen GameScreen w1 in
         case gameState w2 of
           None \<Rightarrow> w2
         | Some game \<Rightarrow>
             (let w3 = renderGame w2 in
              if phase game = Resolution then startResolutionTimer w3 else w3)))"

definition handleJoinedRoomV1 :: "jsstring \<Rightarrow> jsstring \<Rightarrow> room_state \<Rightarrow> world \<Rightarrow> world" where
  \<comment> \<open>the first revision (line 166): the buffered game is rendered, no countdown is started\<close>
  "handleJoinedRoomV1 player_id room rs w =
     (let w1 = w\<lparr>playerId := Some player_id, roomId := Some room, roomState := Some rs\<rparr> in
      if room_phase rs = WaitingForPlayers then showScreen LobbyScreen w1
      else
        (let w2 = showScreen GameScreen w1 in
         case gameState w2 of None \<Rightarrow> w2 | Some game \<Rightarrow> renderGame w2))"

definition phaseEdges :: "phase option \<Rightarrow> phase \<Rightarrow> world \<Rightarrow> world" where
  \<comment> \<open>the four conditionals of \<^verbatim>\<open>handleGameUpdate\<close> on the pair of phases, in their order\<close>
  "phaseEdges previousPhase newPhase w =
     (let w1 = (if newPhase = SpellSelection \<and> previousPhase \<noteq> Some SpellSelection
                then stopTimer (w\<lparr>selectedSpell := None, selectedTarget := None,
                                  typingSubmitted := False, typingStartTime := None\<rparr>)
                else w);
          w2 = (if previousPhase = Some Typing \<and> newPhase \<noteq> Typing
                then stopTimer (w1\<lparr>typingStartTime := None\<rparr>)
                else w1);
          w3 = (if newPhase = Resolution \<and> previousPhase \<noteq> Some Resolution
                then startResolutionTimer w2
                else w2);
          w4 = (if previousPhase = Some Resolution \<and> newPhase \<noteq> Resolution
                then stopTimer w3
                else w3)
      in w4)"

definition showUpdate :: "phase \<Rightarrow> world \<Rightarrow> world" where
  \<comment> \<open>the end of \<^verbatim>\<open>handleGameUpdate\<close>: the screen of the new phase\<close>
  "showUpdate newPhase w =
     (if newPhase = GameOver then showScreen GameoverScreen w
      else renderGame (showScreen GameScreen w))"

definition handleGameUpdate :: "game_state \<Rightarrow> world \<Rightarrow> world" where
  "handleGameUpdate game w =
     (let previousPhase = map_option phase (gameState w);
          newPhase = phase game;
          w1 = w\<lparr>gameState := Some game\<rparr>
      in if \<not> idKnown w1 then w1
         else showUpdate newPhase (phaseEdges previousPhase newPhase w1))"

fun handleServerMessage :: "server_msg \<Rightarrow> world \<Rightarrow> world" where
  "handleServerMessage (JoinedRoom player_id room rs) w = handleJoinedRoom player_id room rs w"
| "handleServerMessage (ErrorMsg message) w = showError message w"
| "handleServerMessage (RoomUpdate rs) w = w\<lparr>roomState := Some rs\<rparr>"
| "handleServerMessage (GameUpdate game) w = handleGameUpdate game w"
| "handleServerMessage Pong w = w"
| "handleServerMessage (UnknownMsg tag) w = w"

section \<open>The join form\<close>

record join_form =
  playerNameInput :: jsstring
  serverUrlInput :: jsstring
  roomIdInput :: jsstring
  timerSecondsInput :: jsstring

datatype connect_result =
  Opened \<comment> \<open>\<^verbatim>\<open>onopen\<close> fired: the promise of \<^verbatim>\<open>connect\<close> resolves\<close>
  | Refused \<comment> \<open>\<^verbatim>\<open>onerror\<close> fired: the promise is rejected\<close>
  | Threw jsstring \<comment> \<open>\<^verbatim>\<open>new WebSocket\<close> threw an error with this message: the promise
      is rejected and \<^verbatim>\<open>state.ws\<close> is not assigned\<close>

definition connectFailed :: jsstring where
  "connectFailed =
     js ''Failed to connect to server. Check the server URL and ensure the server is running.''"

definition joinSubmit :: "join_form \<Rightarrow> connect_result \<Rightarrow> world \<Rightarrow> world" where
  \<comment> \<open>the submit handler of the join form; the outcome of the connection is given\<close>
  "joinSubmit form outcome w =
     (let name = trim (playerNameInput form);
          serverUrl = trim (serverUrlInput form);
          room = trim (roomIdInput form);
          timerSeconds = timerSecondsOf (timerSecondsInput form)
      in if name = [] \<or> serverUrl = [] \<or> room = []
         then showError (js ''Please fill in all fields'') w
         else
           (let w1 = w\<lparr>playerName := Some name, connectionError := None\<rparr> in
            case outcome of
              Opened \<Rightarrow>
                send (JoinRoom room name (jsonNumber timerSeconds))
                  (w1\<lparr>ws := Some \<lparr>url = normalizeUrl serverUrl, ready = OPEN\<rparr>\<rparr>)
            | Refused \<Rightarrow>
                showError connectFailed
                  (w1\<lparr>ws := Some \<lparr>url = normalizeUrl serverUrl, ready = CLOSED\<rparr>\<rparr>)
            | Threw message \<Rightarrow> showError message w1))"

section \<open>The submit triggers of the typing phase\<close>

datatype trigger = ManualButton | EnterKey | AutoComplete | CountdownExpiry

fun fire :: "trigger \<Rightarrow> world \<Rightarrow> world" where
  \<comment> \<open>the body each trigger path runs when it fires\<close>
  "fire ManualButton w = submitTyping True w"
| "fire EnterKey w = submitTyping True w"
| "fire AutoComplete w = (if \<not> typingSubmitted w then submitTyping True w else w)"
| "fire CountdownExpiry w =
     (let w1 = stopTimer w in if \<not> typingSubmitted w1 then submitTyping False w1 else w1)"

definition submissions :: "world \<Rightarrow> out_msg list" where
  \<comment> \<open>the \<^verbatim>\<open>submit_typing\<close> messages written to the socket so far\<close>
  "submissions w = filter isSubmitTyping (sent w)"

section \<open>Events\<close>

text \<open>
  Every piece of work of the client is started by one event and runs to its end. An event
  that finds no handler or no timer of its handle changes nothing.
\<close>

datatype event =
  Server server_msg \<comment> \<open>\<^verbatim>\<open>onmessage\<close>\<close>
  | SocketClosed \<comment> \<open>\<^verbatim>\<open>onclose\<close>\<close>
  | Elapse nat \<comment> \<open>the clock advances by so many milliseconds\<close>
  | Tick nat \<comment> \<open>the interval timer of this handle fires\<close>
  | TypeText jsstring \<comment> \<open>the typing input is edited to this value\<close>
  | ClickSubmit
  | PressEnter
  | AutoSubmitDue \<comment> \<open>a timeout of the automatic submission fires\<close>
  | ClickSpell jsstring
  | ClickTarget jsstring
  | ClickPlayAgain
  | KeepAlive \<comment> \<open>the 30000 ms interval of the keep-alive\<close>
  | SubmitJoin join_form connect_result

definition onInput :: "jsstring \<Rightarrow> world \<Rightarrow> world" where
  \<comment> \<open>the \<^verbatim>\<open>oninput\<close> handler installed by \<^verbatim>\<open>renderTypingPhase\<close>\<close>
  "onInput target w =
     (let w1 = updateTypingFeedback target (typingInput w) w in
      if length (typingInput w1) \<ge> length target
      then w1\<lparr>pendingAutoSubmits := Suc (pendingAutoSubmits w1)\<rparr>
      else w1)"

definition closeSocket :: "world \<Rightarrow> world" where
  "closeSocket w =
     showError (js ''Connection lost. Please refresh the page.'')
       (w\<lparr>ws := map_option (\<lambda>s. s\<lparr>ready := CLOSED\<rparr>) (ws w)\<rparr>)"

fun step :: "event \<Rightarrow> world \<Rightarrow> world" where
  "step (Server m) w = handleServerMessage m w"
| "step SocketClosed w = closeSocket w"
| "step (Elapse d) w = w\<lparr>now := now w + int d\<rparr>"
| "step (Tick h) w =
     (case map_of (intervals w) h of None \<Rightarrow> w | Some cb \<Rightarrow> runCountdown cb w)"
| "step (TypeText v) w =
     (let w1 = w\<lparr>typingInput := v\<rparr> in
      case oninput w1 of None \<Rightarrow> w1 | Some target \<Rightarrow> onInput target w1)"
| "step ClickSubmit w = (if submitHandlers w then fire ManualButton w else w)"
| "step PressEnter w = (if submitHandlers w then fire EnterKey w else w)"
| "step AutoSubmitDue w =
     (if pendingAutoSubmits w = 0 then w
      else fire AutoComplete (w\<lparr>pendingAutoSubmits := pendingAutoSubmits w - 1\<rparr>))"
| "step (ClickSpell spellId) w = send (SelectSpell spellId) (w\<lparr>selectedSpell := Some spellId\<rparr>)"
| "step (ClickTarget targetId) w =
     send (SelectTarget [targetId]) (w\<lparr>selectedTarget := Some targetId\<rparr>)"
| "step ClickPlayAgain w = send PlayAgain w"
| "step KeepAlive w = (if socketOpen w then send Ping w else w)"
| "step (SubmitJoin form outcome) w = joinSubmit form outcome w"

definition run :: "event list \<Rightarrow> world \<Rightarrow> world" where
  \<comment> \<open>the events of a list, one after the other, the first of the list first\<close>
  "run es w = foldl (\<lambda>w e. step e w) w es"

section \<open>Phase edges\<close>

text \<open>
  The four side effects \<^verbatim>\<open>handleGameUpdate\<close> attaches to phase edges, named, with the
  condition under which each is run for a previous and a new phase.
\<close>

datatype edge = EnterSpellSelection | LeaveTyping | EnterResolution | LeaveResolution

fun edgeDue :: "edge \<Rightarrow> phase option \<Rightarrow> phase \<Rightarrow> bool" where
  "edgeDue EnterSpellSelection p q = (q = SpellSelection \<and> p \<noteq> Some SpellSelection)"
| "edgeDue LeaveTyping p q = (p = Some Typing \<and> q \<noteq> Typing)"
| "edgeDue EnterResolution p q = (q = Resolution \<and> p \<noteq> Some Resolution)"
| "edgeDue LeaveResolution p q = (p = Some Resolution \<and> q \<noteq> Resolution)"

fun runEdge :: "edge \<Rightarrow> world \<Rightarrow> world" where
  "runEdge EnterSpellSelection w =
     stopTimer (w\<lparr>selectedSpell := None, selectedTarget := None,
                  typingSubmitted := False, typingStartTime := None\<rparr>)"
| "runEdge LeaveTyping w = stopTimer (w\<lparr>typingStartTime := None\<rparr>)"
| "runEdge EnterResolution w = startResolutionTimer w"
| "runEdge LeaveResolution w = stopTimer w"

definition edgesFired :: "phase option \<Rightarrow> phase \<Rightarrow> edge list" where
  "edgesFired p q =
     filter (\<lambda>e. edgeDue e p q) [EnterSpellSelection, LeaveTyping, EnterResolution, LeaveResolution]"

fun changes :: "phase option \<Rightarrow> phase list \<Rightarrow> (phase option \<times> phase) list" where
  \<comment> \<open>the pairs of previous and new phase along a sequence of snapshots\<close>
  "changes p [] = []"
| "changes p (q # qs) = (p, q) # changes (Some q) qs"

definition firedAlong :: "phase option \<Rightarrow> phase list \<Rightarrow> edge list" where
  \<comment> \<open>the edges run along a sequence of snapshots, in the order they are run\<close>
  "firedAlong p qs = concat (map (\<lambda>pq. edgesFired (fst pq) (snd pq)) (changes p qs))"

definition updates :: "game_state list \<Rightarrow> world \<Rightarrow> world" where
  \<comment> \<open>a sequence of \<^verbatim>\<open>game_update\<close> messages, handled in order\<close>
  "updates gs w = foldl (\<lambda>w g. handleGameUpdate g w) w gs"

definition fires :: "trigger list \<Rightarrow> world \<Rightarrow> world" where
  \<comment> \<open>submit triggers firing one after the other\<close>
  "fires ts w = foldl (\<lambda>w t. fire t w) w ts"

fun forced :: "trigger \<Rightarrow> bool" where
  \<comment> \<open>the trigger submits with \<^verbatim>\<open>finished = false\<close>\<close>
  "forced CountdownExpiry = True"
| "forced t = False"

fun replay :: "phase option \<Rightarrow> game_state list \<Rightarrow> world \<Rightarrow> world" where
  \<comment> \<open>a sequence of snapshots handled by running, for each, the edges due between the
      previous phase and its own, each once, and then showing it\<close>
  "replay p [] w = w"
| "replay p (g # gs) w =
     replay (Some (phase g)) gs
       (showUpdate (phase g)
          (foldl (\<lambda>w e. runEdge e w) (w\<lparr>gameState := Some g\<rparr>) (edgesFired p (phase g))))"

definition oneTimer :: "world \<Rightarrow> bool" where
  \<comment> \<open>the timers registered with the browser are the one whose handle the state holds\<close>
  "oneTimer w \<longleftrightarrow>
     map fst (intervals w) = (case timerInterval w of None \<Rightarrow> [] | Some h \<Rightarrow> [h])"

definition budget :: "world \<Rightarrow> nat" where
  \<comment> \<open>the submissions written so far, and one more while the guard is not set\<close>
  "budget w = length (submissions w) + (if typingSubmitted w then 0 else 1)"

fun resets :: "event \<Rightarrow> bool" where
  \<comment> \<open>the only event that can clear the guard: a snapshot in the spell selection phase\<close>
  "resets (Server (GameUpdate g)) = (phase g = SpellSelection)"
| "resets e = False"

section \<open>Example inputs\<close>

definition me :: player where
  "me = \<lparr>pid = js ''p1'', is_alive = True, has_selected_spell = False,
          has_selected_target = False, has_finished_typing = False\<rparr>"

definition typingGame :: game_state where
  "typingGame = \<lparr>phase = Typing, players = [me],
      typing_phase = Some \<lparr>incantation = js ''ab cd'', duration_ms = 5000\<rparr>,
      phase_time_remaining_ms = None\<rparr>"

definition resolutionGame :: game_state where
  "resolutionGame = \<lparr>phase = Resolution, players = [me], typing_phase = None,
      phase_time_remaining_ms = Some 8000\<rparr>"

definition bareResolutionGame :: game_state where
  \<comment> \<open>a snapshot of the resolution that carries no remaining time\<close>
  "bareResolutionGame = \<lparr>phase = Resolution, players = [me], typing_phase = None,
      phase_time_remaining_ms = None\<rparr>"

definition spellGame :: game_state where
  "spellGame = \<lparr>phase = SpellSelection, players = [me], typing_phase = None,
      phase_time_remaining_ms = None\<rparr>"

definition joinForm :: join_form where
  "joinForm = \<lparr>playerNameInput = js ''ann'', serverUrlInput = js ''example.com'',
       roomIdInput = js ''r1'', timerSecondsInput = js ''45''\<rparr>"

definition typingRun :: "event list" where
  \<comment> \<open>a player joins a running game and the typing phase begins\<close>
  "typingRun = [SubmitJoin joinForm Opened, Elapse 1000,
                Server (JoinedRoom (js ''p1'') (js ''r1'') \<lparr>room_phase = SpellSelection\<rparr>),
                Server (GameUpdate typingGame)]"

definition typedRun :: "event list" where
  \<comment> \<open>the player has typed two characters, 700 ms into the typing phase\<close>
  "typedRun = typingRun @ [TypeText (js ''ab''), Elapse 700]"

definition typedState :: world where
  \<comment> \<open>the state the client is in after \<open>typedRun\<close>\<close>
  "typedState =
    \<lparr>ws = Some \<lparr>url = js ''ws://example.com'', ready = OPEN\<rparr>,
     playerId = Some (js ''p1''), playerName = Some (js ''ann''), roomId = Some (js ''r1''),
     roomState = Some \<lparr>room_phase = SpellSelection\<rparr>, gameState = Some typingGame,
     selectedSpell = None, selectedTarget = None, typingStartTime = Some 1000,
     typingSubmitted = False, timerInterval = Some 1, now = 1700,
     intervals = [(1, Challenge 6000)], nextHandle = 2, pendingAutoSubmits = 0,
     sent = [JoinRoom (js ''r1'') (js ''ann'') (JsonDigits 45)], shownScreen = GameScreen,
     connectionError = None, typingInput = js ''ab'',
     typingFeedback = [Span Correct 0x61, Span Correct 0x62, Raw (js '' ''),
                       Span Pending 0x63, Span Pending 0x64],
     oninput = Some (js ''ab cd''), submitHandlers = True\<rparr>"

definition closedRun :: "event list" where
  \<comment> \<open>the same, but the socket has closed\<close>
  "closedRun = typedRun @ [SocketClosed]"

section \<open>Auxiliary functions for the proofs\<close>

fun pieceText :: "piece \<Rightarrow> jsstring" where
  \<comment> \<open>the characters of the target a part of the output carries\<close>
  "pieceText (Raw w) = w"
| "pieceText (Span c ch) = [ch]"

fun erase :: "piece \<Rightarrow> piece" where
  \<comment> \<open>a part of the output with its classification forgotten\<close>
  "erase (Raw w) = Raw w"
| "erase (Span c ch) = Span Pending ch"

fun spanChar :: "piece \<Rightarrow> jsstring" where
  \<comment> \<open>the character a span classifies; a whitespace run classifies none\<close>
  "spanChar (Raw w) = []"
| "spanChar (Span c ch) = [ch]"

fun wellFormed :: "piece \<Rightarrow> bool" where
  \<comment> \<open>whitespace is passed as a run, a span holds one character that is not whitespace\<close>
  "wellFormed (Raw w) = isSpaceRun w"
| "wellFormed (Span c ch) = (\<not> isSpace ch)"

definition wordSpans :: "jsstring list \<Rightarrow> nat \<Rightarrow> nat \<Rightarrow> jsstring \<Rightarrow> piece list" where
  \<comment> \<open>what the loop appends for a word that has the word index \<open>k\<close>\<close>
  "wordSpans tn cur k word =
     (if k < cur then map (Span Completed) word
      else if k = cur then currentSpans (if k < length tn then tn ! k else []) word
      else map (Span Pending) word)"

fun piecesFrom :: "jsstring list \<Rightarrow> nat \<Rightarrow> nat \<Rightarrow> jsstring list \<Rightarrow> piece list" where
  \<comment> \<open>the output of the loop over the pieces of the target, from word index \<open>k\<close> on\<close>
  "piecesFrom tn cur k [] = []"
| "piecesFrom tn cur k (x # xs) =
     (if isSpaceRun x then Raw x # piecesFrom tn cur k xs
      else wordSpans tn cur k x @ piecesFrom tn cur (Suc k) xs)"

definition pendingPieces :: "jsstring list \<Rightarrow> piece list" where
  "pendingPieces xs =
     concat (map (\<lambda>w. if isSpaceRun w then [Raw w] else map (Span Pending) w) xs)"

section \<open>Properties of the split functions and of the loop\<close>

lemma head_dropWhile_space:
  assumes "dropWhile (\<lambda>c. \<not> isSpace c) s = c # r"
  shows "isSpace c"
  using hd_dropWhile [of "\<lambda>c. \<not> isSpace c" s] assms by auto

lemma splitKeep_Nil:
  assumes "dropWhile (\<lambda>c. \<not> isSpace c) s = []"
  shows "splitKeep s = [s]"
  using assms by (subst splitKeep.simps) (simp only: list.case)

lemma splitKeep_Cons:
  assumes "dropWhile (\<lambda>c. \<not> isSpace c) s = c # r"
  shows "splitKeep s = takeWhile (\<lambda>c. \<not> isSpace c) s # takeWhile isSpace (c # r)
                         # splitKeep (dropWhile isSpace r)"
  using assms by (subst splitKeep.simps) (simp only: list.case)

lemma concat_splitKeep: "concat (splitKeep s) = s"
proof (induction s rule: splitKeep.induct)
  case (1 s)
  show ?case
  proof (cases "dropWhile (\<lambda>c. \<not> isSpace c) s")
    case Nil
    then show ?thesis by (simp add: splitKeep_Nil)
  next
    case (Cons c r)
    have sp: "isSpace c" using Cons by (rule head_dropWhile_space)
    have "concat (splitKeep s) =
            takeWhile (\<lambda>c. \<not> isSpace c) s @ takeWhile isSpace (c # r) @ dropWhile isSpace r"
      using "1.IH" [OF Cons] by (simp add: splitKeep_Cons [OF Cons])
    also have "takeWhile isSpace (c # r) @ dropWhile isSpace r = c # r"
      using sp by simp
    also have "takeWhile (\<lambda>c. \<not> isSpace c) s @ (c # r) = s"
      using takeWhile_dropWhile_id [of "\<lambda>c. \<not> isSpace c" s] Cons by simp
    finally show ?thesis .
  qed
qed

lemma splitKeep_shape:
  "w \<in> set (splitKeep s) \<Longrightarrow> isSpaceRun w \<or> list_all (\<lambda>c. \<not> isSpace c) w"
proof (induction s rule: splitKeep.induct)
  case (1 s)
  show ?case
  proof (cases "dropWhile (\<lambda>c. \<not> isSpace c) s")
    case Nil
    then have "w = s" using "1.prems" by (simp add: splitKeep_Nil)
    moreover have "list_all (\<lambda>c. \<not> isSpace c) s"
      using Nil by (simp add: dropWhile_eq_Nil_conv list_all_iff)
    ultimately show ?thesis by simp
  next
    case (Cons c r)
    have sp: "isSpace c" using Cons by (rule head_dropWhile_space)
    from "1.prems" Cons
    consider "w = takeWhile (\<lambda>c. \<not> isSpace c) s" | "w = takeWhile isSpace (c # r)"
      | "w \<in> set (splitKeep (dropWhile isSpace r))"
      by (auto simp: splitKeep_Cons [OF Cons])
    then show ?thesis
    proof cases
      case 1
      then have "list_all (\<lambda>c. \<not> isSpace c) w"
        by (auto simp: list_all_iff dest: set_takeWhileD)
      then show ?thesis ..
    next
      case 2
      then have "isSpaceRun w"
        using sp by (auto simp: isSpaceRun_def list_all_iff dest: set_takeWhileD)
      then show ?thesis ..
    next
      case 3
      then show ?thesis using "1.IH" [OF Cons] by simp
    qed
  qed
qed

lemma html_loop:
  "html (foldl (feedbackStep tw tn cur) st (zip [i ..< i + length xs] xs))
     = html st @ piecesFrom tn cur (wordIndex st) xs"
proof (induction xs arbitrary: st i)
  case Nil
  then show ?case by simp
next
  case (Cons x xs)
  have z: "zip [i ..< i + length (x # xs)] (x # xs)
             = (i, x) # zip [Suc i ..< Suc i + length xs] xs"
    by (simp add: upt_conv_Cons del: upt_Suc)
  show ?case
    unfolding z foldl_Cons Cons.IH
    by (simp add: feedbackStep_def Let_def wordSpans_def)
qed

lemma feedbackHtml_pieces:
  "feedbackHtml expected typed =
     (let tn = filter (\<lambda>w. length w > 0) (splitDrop typed) in
      piecesFrom tn (if length tn > 0 then length tn - 1 else 0) 0 (splitKeep expected))"
  using html_loop [where i = 0 and xs = "splitKeep expected"]
  by (simp add: feedbackHtml_def Let_def)

lemma text_singletons:
  assumes "\<And>j. pieceText (f j) = [g j]"
  shows "concat (map pieceText (map f ixs)) = map g ixs"
  using assms by (induction ixs) auto

lemma text_currentSpans: "concat (map pieceText (currentSpans tw w)) = w"
proof -
  have "concat (map pieceText (currentSpans tw w)) = map (\<lambda>j. w ! j) [0 ..< length w]"
    unfolding currentSpans_def by (rule text_singletons) simp
  then show ?thesis by (simp add: map_nth)
qed

lemma text_spans: "concat (map pieceText (map (Span c) w)) = w"
  using text_singletons [of "Span c" "\<lambda>x. x" w] by simp

lemma text_wordSpans: "concat (map pieceText (wordSpans tn cur k w)) = w"
  by (simp add: wordSpans_def text_currentSpans text_spans del: map_map)

lemma text_piecesFrom: "concat (map pieceText (piecesFrom tn cur k xs)) = concat xs"
  by (induction xs arbitrary: k) (simp_all add: text_wordSpans del: map_map)

lemma map_nth_fun: "map (\<lambda>j. f (w ! j)) [0 ..< length w] = map f w"
  by (rule nth_equalityI) auto

lemma currentSpans_Nil: "currentSpans [] w = map (Span Pending) w"
  using map_nth_fun [of "Span Pending" w] by (simp add: currentSpans_def)

lemma erase_currentSpans: "map erase (currentSpans tw w) = map (Span Pending) w"
proof -
  have "map erase (currentSpans tw w) = map (\<lambda>j. Span Pending (w ! j)) [0 ..< length w]"
    by (simp add: currentSpans_def)
  then show ?thesis by (simp only: map_nth_fun)
qed

lemma erase_wordSpans: "map erase (wordSpans tn cur k w) = map (Span Pending) w"
  by (simp add: wordSpans_def erase_currentSpans)

lemma erase_piecesFrom: "map erase (piecesFrom tn cur k xs) = pendingPieces xs"
  by (induction xs arbitrary: k) (simp_all add: pendingPieces_def erase_wordSpans)

lemma splitDrop_Nil:
  assumes "dropWhile (\<lambda>c. \<not> isSpace c) s = []"
  shows "splitDrop s = [s]"
  using assms by (subst splitDrop.simps) (simp only: list.case)

lemma splitDrop_Cons:
  assumes "dropWhile (\<lambda>c. \<not> isSpace c) s = c # r"
  shows "splitDrop s = takeWhile (\<lambda>c. \<not> isSpace c) s # splitDrop (dropWhile isSpace r)"
  using assms by (subst splitDrop.simps) (simp only: list.case)

lemma piecesFrom_untyped: "piecesFrom [] 0 k xs = pendingPieces xs"
  by (induction xs arbitrary: k)
     (simp_all add: pendingPieces_def wordSpans_def currentSpans_Nil)

lemma splitDrop_empty: "splitDrop [] = [[]]"
  by (rule splitDrop_Nil) simp

lemma feedbackHtml_untyped: "feedbackHtml expected [] = pendingPieces (splitKeep expected)"
  by (simp add: feedbackHtml_pieces splitDrop_empty piecesFrom_untyped)

lemma erase_feedbackHtml: "map erase (feedbackHtml expected typed) = feedbackHtml expected []"
  unfolding feedbackHtml_untyped
  by (simp add: feedbackHtml_pieces Let_def erase_piecesFrom)

lemma wellFormed_currentSpans:
  assumes "list_all (\<lambda>c. \<not> isSpace c) w"
  shows "list_all wellFormed (currentSpans tw w)"
  using assms by (auto simp: currentSpans_def list_all_iff)

lemma wellFormed_wordSpans:
  assumes "list_all (\<lambda>c. \<not> isSpace c) w"
  shows "list_all wellFormed (wordSpans tn cur k w)"
  using assms wellFormed_currentSpans [OF assms]
  by (auto simp: wordSpans_def list_all_iff)

lemma wellFormed_piecesFrom:
  assumes "\<And>x. x \<in> set xs \<Longrightarrow> isSpaceRun x \<or> list_all (\<lambda>c. \<not> isSpace c) x"
  shows "list_all wellFormed (piecesFrom tn cur k xs)"
  using assms
proof (induction xs arbitrary: k)
  case Nil
  then show ?case by simp
next
  case (Cons x xs)
  have rest: "list_all wellFormed (piecesFrom tn cur j xs)" for j
    using Cons by simp
  show ?case
  proof (cases "isSpaceRun x")
    case True
    then show ?thesis using rest by simp
  next
    case False
    then have "list_all (\<lambda>c. \<not> isSpace c) x" using Cons.prems [of x] by simp
    then show ?thesis using False rest by (simp add: wellFormed_wordSpans)
  qed
qed

lemma wellFormed_feedbackHtml: "list_all wellFormed (feedbackHtml expected typed)"
  by (simp add: feedbackHtml_pieces Let_def wellFormed_piecesFrom splitKeep_shape)

lemma text_feedbackHtml: "concat (map pieceText (feedbackHtml expected typed)) = expected"
  by (simp add: feedbackHtml_pieces Let_def text_piecesFrom concat_splitKeep)

lemma spanChars_wellFormed:
  assumes "list_all wellFormed out"
  shows "concat (map spanChar out) = filter (\<lambda>c. \<not> isSpace c) (concat (map pieceText out))"
  using assms
proof (induction out)
  case Nil
  then show ?case by simp
next
  case (Cons p out)
  show ?case
  proof (cases p)
    case (Raw w)
    then have "filter (\<lambda>c. \<not> isSpace c) w = []"
      using Cons.prems by (auto simp: isSpaceRun_def list_all_iff filter_empty_conv)
    then show ?thesis using Raw Cons by simp
  next
    case (Span c ch)
    then show ?thesis using Cons by simp
  qed
qed

section \<open>The code against the words of the specification\<close>

declare runs.simps(2) [simp del]

lemma runs_word:
  assumes "\<not> isSpace c"
  shows "runs (c # cs) = takeWhile (\<lambda>c. \<not> isSpace c) (c # cs)
                           # runs (dropWhile (\<lambda>c. \<not> isSpace c) (c # cs))"
  using assms by (simp add: runs.simps(2))

lemma runs_gap:
  assumes "isSpace c"
  shows "runs (c # cs) = takeWhile isSpace (c # cs) # runs (dropWhile isSpace (c # cs))"
  using assms by (simp add: runs.simps(2))

lemma currentSpans_compareWord: "currentSpans tw w = compareWord tw w"
proof (induction tw w rule: compareWord.induct)
  case (1 tw)
  then show ?case by (simp add: currentSpans_def)
next
  case (2 c cs)
  then show ?case by (simp add: currentSpans_Nil)
next
  case (3 t ts c cs)
  have u: "[0 ..< length (c # cs)] = 0 # map Suc [0 ..< length cs]"
    by (simp add: upt_conv_Cons map_Suc_upt del: upt_Suc)
  have "currentSpans (t # ts) (c # cs)
          = Span (if t = c then Correct else Incorrect) c # currentSpans ts cs"
    unfolding currentSpans_def u by (simp add: comp_def)
  then show ?case using 3 by simp
qed

lemma wordSpans_Nil [simp]: "wordSpans tn cur k [] = []"
  by (simp add: wordSpans_def currentSpans_def)

lemma word_not_gap:
  assumes "\<not> isSpace c"
  shows "\<not> isSpaceRun (takeWhile (\<lambda>c. \<not> isSpace c) (c # cs))"
  using assms by (simp add: isSpaceRun_def)

lemma gap_is_gap:
  assumes "isSpace c"
  shows "isSpaceRun (takeWhile isSpace (c # cs))"
  using assms by (auto simp: isSpaceRun_def list_all_iff dest: set_takeWhileD)

lemma dropWhile_starts:
  "dropWhile isSpace r = [] \<or> \<not> isSpace (hd (dropWhile isSpace r))"
  using hd_dropWhile [of isSpace r] by blast

lemma pieces_as_specified:
  assumes "s = [] \<or> \<not> isSpace (hd s)"
  shows "piecesFrom tn cur k (splitKeep s) = specPieces tn cur k (runs s)"
  using assms
proof (induction s arbitrary: k rule: splitKeep.induct)
  case (1 s)
  show ?case
  proof (cases "dropWhile (\<lambda>c. \<not> isSpace c) s")
    case Nil
    show ?thesis
    proof (cases s)
      case Nil
      then show ?thesis by (simp add: splitKeep_Nil isSpaceRun_def)
    next
      case (Cons a t)
      have all: "takeWhile (\<lambda>c. \<not> isSpace c) s = s"
        using \<open>dropWhile (\<lambda>c. \<not> isSpace c) s = []\<close> takeWhile_dropWhile_id [of "\<lambda>c. \<not> isSpace c" s]
        by simp
      have a: "\<not> isSpace a" using "1.prems" Cons by simp
      have r: "runs s = [s]"
        using runs_word [OF a, of t] all \<open>dropWhile (\<lambda>c. \<not> isSpace c) s = []\<close> Cons by simp
      have n: "\<not> isSpaceRun s" using word_not_gap [OF a, of t] all Cons by simp
      show ?thesis
        using n by (simp add: splitKeep_Nil [OF \<open>dropWhile (\<lambda>c. \<not> isSpace c) s = []\<close>] r
            wordSpans_def currentSpans_compareWord)
    qed
  next
    case (Cons c r)
    have sp: "isSpace c" using Cons by (rule head_dropWhile_space)
    obtain a t where s: "s = a # t" using Cons by (cases s) auto
    have a: "\<not> isSpace a" using "1.prems" s by simp
    let ?w = "takeWhile (\<lambda>c. \<not> isSpace c) s"
    let ?g = "takeWhile isSpace (c # r)"
    let ?rest = "dropWhile isSpace r"
    have k: "splitKeep s = ?w # ?g # splitKeep ?rest" using Cons by (rule splitKeep_Cons)
    have "runs s = ?w # runs (c # r)"
      using runs_word [OF a, of t] s Cons by simp
    also have "runs (c # r) = ?g # runs ?rest"
      using runs_gap [OF sp, of r] sp by simp
    finally have rn: "runs s = ?w # ?g # runs ?rest" .
    have w: "\<not> isSpaceRun ?w" using word_not_gap [OF a, of t] s by simp
    have g: "isSpaceRun ?g" using sp by (rule gap_is_gap)
    have ih: "piecesFrom tn cur (Suc k) (splitKeep ?rest) = specPieces tn cur (Suc k) (runs ?rest)"
      using "1.IH" [OF Cons, of "Suc k"] dropWhile_starts [of r] by simp
    show ?thesis
      unfolding k rn using w g ih
      by (simp add: wordSpans_def currentSpans_compareWord)
  qed
qed

lemma typed_words: "filter (\<lambda>w. length w > 0) (splitDrop s) = wordsOf s"
proof (induction s rule: splitDrop.induct)
  case (1 s)
  show ?case
  proof (cases "dropWhile (\<lambda>c. \<not> isSpace c) s")
    case Nil
    show ?thesis
    proof (cases s)
      case Nil
      then show ?thesis by (simp add: splitDrop_empty wordsOf_def)
    next
      case (Cons a t)
      have all: "takeWhile (\<lambda>c. \<not> isSpace c) s = s"
        using \<open>dropWhile (\<lambda>c. \<not> isSpace c) s = []\<close> takeWhile_dropWhile_id [of "\<lambda>c. \<not> isSpace c" s]
        by simp
      have a: "\<not> isSpace a"
        using \<open>dropWhile (\<lambda>c. \<not> isSpace c) s = []\<close> Cons by (simp split: if_splits)
      have r: "runs s = [s]"
        using runs_word [OF a, of t] all \<open>dropWhile (\<lambda>c. \<not> isSpace c) s = []\<close> Cons by simp
      have n: "\<not> isSpaceRun s" using word_not_gap [OF a, of t] all Cons by simp
      have dn: "splitDrop s = [s]"
        using \<open>dropWhile (\<lambda>c. \<not> isSpace c) s = []\<close> by (rule splitDrop_Nil)
      have "s \<noteq> []" using Cons by simp
      then show ?thesis
        unfolding dn wordsOf_def r using n by simp
    qed
  next
    case (Cons c r)
    have sp: "isSpace c" using Cons by (rule head_dropWhile_space)
    obtain a t where s: "s = a # t" using Cons by (cases s) auto
    let ?w = "takeWhile (\<lambda>c. \<not> isSpace c) s"
    let ?g = "takeWhile isSpace (c # r)"
    let ?rest = "dropWhile isSpace r"
    have d: "splitDrop s = ?w # splitDrop ?rest" using Cons by (rule splitDrop_Cons)
    have g: "isSpaceRun ?g" using sp by (rule gap_is_gap)
    have gr: "runs (c # r) = ?g # runs ?rest"
      using runs_gap [OF sp, of r] sp by simp
    have ih: "filter (\<lambda>w. length w > 0) (splitDrop ?rest) = wordsOf ?rest"
      using "1.IH" [OF Cons] .
    show ?thesis
    proof (cases "isSpace a")
      case True
      then have "?w = []" and "c # r = s" using s Cons by simp_all
      then show ?thesis
        unfolding d using ih gr g by (simp add: wordsOf_def)
    next
      case False
      have "runs s = ?w # runs (c # r)"
        using runs_word [OF False, of t] s Cons by simp
      then have rn: "runs s = ?w # ?g # runs ?rest" using gr by simp
      have w: "\<not> isSpaceRun ?w" using word_not_gap [OF False, of t] s by simp
      have ne: "?w \<noteq> []" using False s by simp
      show ?thesis
        unfolding d wordsOf_def rn using ih g w ne by (simp add: wordsOf_def)
    qed
  qed
qed

lemma diff_as_specified:
  assumes "target = [] \<or> \<not> isSpace (hd target)"
  shows "feedbackHtml target typed = specDiff target typed"
proof -
  have tw: "filter (\<lambda>w. w \<noteq> []) (splitDrop typed) = wordsOf typed"
    using typed_words [of typed] by simp
  have "feedbackHtml target typed
          = piecesFrom (wordsOf typed) (length (wordsOf typed) - 1) 0 (splitKeep target)"
    by (simp add: feedbackHtml_pieces tw Let_def)
  then show ?thesis
    using pieces_as_specified [OF assms] by (simp add: specDiff_def)
qed

section \<open>The diff with nothing typed and with the target typed\<close>

lemma compareWord_self: "compareWord w w = map (Span Correct) w"
  by (induction w) simp_all

lemma settled_spans:
  "list_all settled (map (Span Correct) w)" "list_all settled (map (Span Completed) w)"
  by (simp_all add: list_all_iff)

lemma wordsOf_gap:
  assumes "isSpace c"
  shows "wordsOf (c # cs) = wordsOf (dropWhile isSpace cs)"
proof -
  have "runs (c # cs) = takeWhile isSpace (c # cs) # runs (dropWhile isSpace cs)"
    using assms by (simp add: runs.simps(2))
  then show ?thesis
    unfolding wordsOf_def using gap_is_gap [OF assms, of cs] by (simp del: takeWhile.simps)
qed

lemma wordsOf_word:
  assumes "\<not> isSpace c"
  shows "wordsOf (c # cs) = takeWhile (\<lambda>c. \<not> isSpace c) (c # cs)
                              # wordsOf (dropWhile (\<lambda>c. \<not> isSpace c) cs)"
proof -
  have "runs (c # cs) = takeWhile (\<lambda>c. \<not> isSpace c) (c # cs)
                          # runs (dropWhile (\<lambda>c. \<not> isSpace c) cs)"
    using assms by (simp add: runs.simps(2))
  then show ?thesis
    unfolding wordsOf_def using word_not_gap [OF assms, of cs] by (simp del: takeWhile.simps)
qed

lemma spec_self_settled:
  "list_all settled
     (specPieces (pre @ wordsOf s) (length (pre @ wordsOf s) - 1) (length pre) (runs s))"
proof (induction s arbitrary: pre rule: runs.induct)
  case 1
  then show ?case by simp
next
  case (2 c cs)
  show ?case
  proof (cases "isSpace c")
    case True
    have ih: "list_all settled
        (specPieces (pre @ wordsOf (dropWhile isSpace cs))
           (length (pre @ wordsOf (dropWhile isSpace cs)) - 1) (length pre)
           (runs (dropWhile isSpace cs)))"
      using "2.IH"(1) [OF True] .
    have rn: "runs (c # cs) = takeWhile isSpace (c # cs) # runs (dropWhile isSpace cs)"
      using True by (simp add: runs.simps(2))
    show ?thesis
      unfolding rn wordsOf_gap [OF True]
      using ih gap_is_gap [OF True, of cs] by (simp del: takeWhile.simps)
  next
    case False
    let ?w = "takeWhile (\<lambda>c. \<not> isSpace c) (c # cs)"
    let ?rest = "dropWhile (\<lambda>c. \<not> isSpace c) cs"
    have ws: "wordsOf (c # cs) = ?w # wordsOf ?rest"
      using False by (rule wordsOf_word)
    have rn: "runs (c # cs) = ?w # runs ?rest"
      using False by (simp add: runs.simps(2))
    have w: "\<not> isSpaceRun ?w" using False by (rule word_not_gap)
    have e: "pre @ ?w # wordsOf ?rest = (pre @ [?w]) @ wordsOf ?rest" by simp
    have ih: "list_all settled
        (specPieces ((pre @ [?w]) @ wordsOf ?rest)
           (length ((pre @ [?w]) @ wordsOf ?rest) - 1) (length (pre @ [?w])) (runs ?rest))"
      using "2.IH"(2) [OF False] .
    define W where "W = ?w"
    define R where "R = wordsOf ?rest"
    define tail where "tail = runs ?rest"
    have w': "\<not> isSpaceRun W" using w by (simp add: W_def)
    have ih': "list_all settled
        (specPieces ((pre @ [W]) @ R) (length ((pre @ [W]) @ R) - 1) (Suc (length pre)) tail)"
      using ih by (simp add: W_def R_def tail_def)
    have "list_all settled
        (specPieces ((pre @ [W]) @ R) (length ((pre @ [W]) @ R) - 1) (length pre) (W # tail))"
    proof (cases R)
      case Nil
      then show ?thesis
        using w' ih' by (simp add: compareWord_self settled_spans)
    next
      case (Cons x xs)
      then show ?thesis
        using w' ih' by (simp add: settled_spans)
    qed
    then show ?thesis
      unfolding ws rn e W_def R_def tail_def .
  qed
qed

lemma specDiff_self: "list_all settled (specDiff t t)"
  using spec_self_settled [of "[]" t] by (simp add: specDiff_def)

lemma diff_self_settled:
  assumes "t = [] \<or> \<not> isSpace (hd t)"
  shows "list_all settled (feedbackHtml t t)"
  using specDiff_self [of t] diff_as_specified [OF assms, of t] by simp

lemma unsettled_spans: "list_all unsettled (map (Span Pending) w)"
  by (simp add: list_all_iff)

lemma unsettled_pendingPieces: "list_all unsettled (pendingPieces xs)"
  by (induction xs) (simp_all add: pendingPieces_def unsettled_spans)

lemma diff_untyped_pending: "list_all unsettled (feedbackHtml t [])"
  by (simp add: feedbackHtml_untyped unsettled_pendingPieces)

lemma diff_is_pure:
  "typingFeedback (updateTypingFeedback expected typed w) = feedbackHtml expected typed"
  "updateTypingFeedback expected typed w = w\<lparr>typingFeedback := feedbackHtml expected typed\<rparr>"
  by (simp_all add: updateTypingFeedback_def)

lemma first_revision_compares_by_position:
  "updateTypingFeedbackV1 (js ''ab cd'') (js ''ax c'')
     = [Span Correct 0x61, Span Incorrect 0x62, Span Correct 0x20, Span Correct 0x63,
        Span Pending 0x64]
   \<and> feedbackHtml (js ''ab cd'') (js ''ax c'')
     = [Span Completed 0x61, Span Completed 0x62, Raw (js '' ''), Span Correct 0x63,
        Span Pending 0x64]"
  by code_simp

section \<open>Runs\<close>

lemma run_Nil [simp]: "run [] w = w"
  by (simp add: run_def)

lemma run_Cons [simp]: "run (e # es) w = run es (step e w)"
  by (simp add: run_def)

lemma run_append: "run (es @ fs) w = run fs (run es w)"
  by (simp add: run_def)

lemma run_typedRun: "run typedRun init = typedState"
  by code_simp

lemma run_closedRun: "run closedRun init = closeSocket typedState"
  by (simp add: closedRun_def run_append run_typedRun)

section \<open>At most one timer\<close>

lemma oneTimer_update [simp]:
  "oneTimer (w\<lparr>ws := a1\<rparr>) = oneTimer w"
  "oneTimer (w\<lparr>playerId := a2\<rparr>) = oneTimer w"
  "oneTimer (w\<lparr>playerName := a3\<rparr>) = oneTimer w"
  "oneTimer (w\<lparr>roomId := a4\<rparr>) = oneTimer w"
  "oneTimer (w\<lparr>roomState := a5\<rparr>) = oneTimer w"
  "oneTimer (w\<lparr>gameState := a6\<rparr>) = oneTimer w"
  "oneTimer (w\<lparr>selectedSpell := a7\<rparr>) = oneTimer w"
  "oneTimer (w\<lparr>selectedTarget := a8\<rparr>) = oneTimer w"
  "oneTimer (w\<lparr>typingStartTime := a9\<rparr>) = oneTimer w"
  "oneTimer (w\<lparr>typingSubmitted := a10\<rparr>) = oneTimer w"
  "oneTimer (w\<lparr>now := a11\<rparr>) = oneTimer w"
  "oneTimer (w\<lparr>nextHandle := a12\<rparr>) = oneTimer w"
  "oneTimer (w\<lparr>pendingAutoSubmits := a13\<rparr>) = oneTimer w"
  "oneTimer (w\<lparr>sent := a14\<rparr>) = oneTimer w"
  "oneTimer (w\<lparr>shownScreen := a15\<rparr>) = oneTimer w"
  "oneTimer (w\<lparr>connectionError := a16\<rparr>) = oneTimer w"
  "oneTimer (w\<lparr>typingInput := a17\<rparr>) = oneTimer w"
  "oneTimer (w\<lparr>typingFeedback := a18\<rparr>) = oneTimer w"
  "oneTimer (w\<lparr>oninput := a19\<rparr>) = oneTimer w"
  "oneTimer (w\<lparr>submitHandlers := a20\<rparr>) = oneTimer w"
  by (simp_all add: oneTimer_def)

lemma oneTimer_stopTimer [simp]: "oneTimer w \<Longrightarrow> oneTimer (stopTimer w)"
  by (auto simp: oneTimer_def stopTimer_def split: option.splits)

lemma oneTimer_setInterval:
  "oneTimer w \<Longrightarrow> timerInterval w = None \<Longrightarrow> oneTimer (setInterval cb w)"
  by (simp add: oneTimer_def setInterval_def)

lemma oneTimer_startTimer [simp]: "oneTimer w \<Longrightarrow> oneTimer (startTimer d w)"
  by (simp add: startTimer_def oneTimer_setInterval)

lemma oneTimer_startResolutionTimer [simp]:
  "oneTimer w \<Longrightarrow> oneTimer (startResolutionTimer w)"
  by (simp add: startResolutionTimer_def oneTimer_setInterval split: option.splits)

lemma oneTimer_send [simp]: "oneTimer (send m w) = oneTimer w"
  by (simp add: send_def)

lemma oneTimer_showScreen [simp]: "oneTimer (showScreen sc w) = oneTimer w"
  by (simp add: showScreen_def)

lemma oneTimer_showError [simp]: "oneTimer (showError m w) = oneTimer w"
  by (simp add: showError_def)

lemma oneTimer_updateTypingFeedback [simp]:
  "oneTimer (updateTypingFeedback e t w) = oneTimer w"
  by (simp add: updateTypingFeedback_def)

lemma oneTimer_submitTyping [simp]: "oneTimer w \<Longrightarrow> oneTimer (submitTyping f w)"
  by (simp add: submitTyping_def Let_def)

lemma oneTimer_fire [simp]: "oneTimer w \<Longrightarrow> oneTimer (fire t w)"
  by (cases t) (simp_all add: Let_def)

lemma oneTimer_runCountdown [simp]: "oneTimer w \<Longrightarrow> oneTimer (runCountdown cb w)"
  by (cases cb) (simp_all add: challengeTick_def resolutionTick_def Let_def)

lemma oneTimer_renderTypingPhase [simp]:
  "oneTimer w \<Longrightarrow> oneTimer (renderTypingPhase g self w)"
  by (simp add: renderTypingPhase_def Let_def split: option.splits)

lemma oneTimer_renderGame [simp]: "oneTimer w \<Longrightarrow> oneTimer (renderGame w)"
  by (simp add: renderGame_def split: option.splits)

lemma oneTimer_handleJoinedRoom [simp]:
  "oneTimer w \<Longrightarrow> oneTimer (handleJoinedRoom i r rs w)"
  by (simp add: handleJoinedRoom_def Let_def split: option.splits)

lemma oneTimer_runEdge [simp]: "oneTimer w \<Longrightarrow> oneTimer (runEdge e w)"
  by (cases e) simp_all

lemma phaseEdges_fold:
  "phaseEdges p q w = foldl (\<lambda>w e. runEdge e w) w (edgesFired p q)"
  by (simp add: phaseEdges_def edgesFired_def Let_def)

lemma oneTimer_edges:
  "oneTimer w \<Longrightarrow> oneTimer (foldl (\<lambda>w e. runEdge e w) w es)"
  by (induction es arbitrary: w) simp_all

lemma oneTimer_phaseEdges [simp]: "oneTimer w \<Longrightarrow> oneTimer (phaseEdges p q w)"
  by (simp add: phaseEdges_fold oneTimer_edges)

lemma oneTimer_handleGameUpdate [simp]:
  "oneTimer w \<Longrightarrow> oneTimer (handleGameUpdate g w)"
  by (simp add: handleGameUpdate_def Let_def showUpdate_def)

lemma oneTimer_handleServerMessage [simp]:
  "oneTimer w \<Longrightarrow> oneTimer (handleServerMessage m w)"
  by (cases m) simp_all

lemma oneTimer_joinSubmit [simp]: "oneTimer w \<Longrightarrow> oneTimer (joinSubmit f oc w)"
  by (cases oc) (simp_all add: joinSubmit_def Let_def)

lemma oneTimer_step: "oneTimer w \<Longrightarrow> oneTimer (step e w)"
  by (cases e) (simp_all add: closeSocket_def onInput_def Let_def split: option.splits)

lemma oneTimer_run: "oneTimer w \<Longrightarrow> oneTimer (run es w)"
  by (induction es arbitrary: w) (simp_all add: oneTimer_step)

lemma oneTimer_init: "oneTimer init"
  by (simp add: oneTimer_def init_def)

lemma start_noop:
  assumes "timerInterval w \<noteq> None"
  shows "startTimer durationMs w = w \<and> startResolutionTimer w = w"
  using assms by (simp add: startTimer_def startResolutionTimer_def)

lemma oneTimer_length: "oneTimer w \<Longrightarrow> length (intervals w) \<le> 1"
proof -
  assume "oneTimer w"
  then have "length (map fst (intervals w)) \<le> 1"
    by (simp add: oneTimer_def split: option.splits)
  then show ?thesis by simp
qed

lemma oneTimer_handle:
  assumes "oneTimer w" "(h, cb) \<in> set (intervals w)"
  shows "timerInterval w = Some h"
proof -
  have m: "h \<in> set (map fst (intervals w))" using assms(2) by force
  show ?thesis
  proof (cases "timerInterval w")
    case None
    then have "map fst (intervals w) = []" using assms(1) by (simp add: oneTimer_def)
    then show ?thesis using m by simp
  next
    case (Some k)
    then have "map fst (intervals w) = [k]" using assms(1) by (simp add: oneTimer_def)
    then have "h = k" using m by simp
    then show ?thesis using Some by simp
  qed
qed

section \<open>What the handlers leave unchanged\<close>

lemma stopTimer_frame [simp]:
  "sent (stopTimer w) = sent w"
  "typingSubmitted (stopTimer w) = typingSubmitted w"
  "playerId (stopTimer w) = playerId w"
  "gameState (stopTimer w) = gameState w"
  "typingInput (stopTimer w) = typingInput w"
  "ws (stopTimer w) = ws w"
  "now (stopTimer w) = now w"
  "typingStartTime (stopTimer w) = typingStartTime w"
  "timerInterval (stopTimer w) = None"
  by (simp_all add: stopTimer_def split: option.splits)

lemma setInterval_frame [simp]:
  "sent (setInterval cb w) = sent w"
  "typingSubmitted (setInterval cb w) = typingSubmitted w"
  "playerId (setInterval cb w) = playerId w"
  "gameState (setInterval cb w) = gameState w"
  by (simp_all add: setInterval_def)

lemma startTimer_frame [simp]:
  "sent (startTimer d w) = sent w"
  "typingSubmitted (startTimer d w) = typingSubmitted w"
  "playerId (startTimer d w) = playerId w"
  "gameState (startTimer d w) = gameState w"
  by (simp_all add: startTimer_def)

lemma startResolutionTimer_frame [simp]:
  "sent (startResolutionTimer w) = sent w"
  "typingSubmitted (startResolutionTimer w) = typingSubmitted w"
  "playerId (startResolutionTimer w) = playerId w"
  "gameState (startResolutionTimer w) = gameState w"
  by (simp_all add: startResolutionTimer_def split: option.splits)

lemma showScreen_frame [simp]:
  "sent (showScreen sc w) = sent w"
  "typingSubmitted (showScreen sc w) = typingSubmitted w"
  "playerId (showScreen sc w) = playerId w"
  "gameState (showScreen sc w) = gameState w"
  by (simp_all add: showScreen_def)

lemma showError_frame [simp]:
  "sent (showError m w) = sent w"
  "typingSubmitted (showError m w) = typingSubmitted w"
  by (simp_all add: showError_def)

lemma updateTypingFeedback_frame [simp]:
  "sent (updateTypingFeedback e t w) = sent w"
  "typingSubmitted (updateTypingFeedback e t w) = typingSubmitted w"
  "playerId (updateTypingFeedback e t w) = playerId w"
  "gameState (updateTypingFeedback e t w) = gameState w"
  by (simp_all add: updateTypingFeedback_def)

lemma renderTypingPhase_frame [simp]:
  "sent (renderTypingPhase g self w) = sent w"
  "typingSubmitted (renderTypingPhase g self w) = typingSubmitted w"
  "playerId (renderTypingPhase g self w) = playerId w"
  "gameState (renderTypingPhase g self w) = gameState w"
  by (simp_all add: renderTypingPhase_def Let_def split: option.splits)

lemma renderGame_frame [simp]:
  "sent (renderGame w) = sent w"
  "typingSubmitted (renderGame w) = typingSubmitted w"
  "playerId (renderGame w) = playerId w"
  "gameState (renderGame w) = gameState w"
  by (simp_all add: renderGame_def split: option.splits)

lemma idKnown_cong: "playerId v = playerId w \<Longrightarrow> idKnown v = idKnown w"
  by (simp add: idKnown_def)

lemma socketOpen_cong: "ws v = ws w \<Longrightarrow> socketOpen v = socketOpen w"
  by (simp add: socketOpen_def)

lemma submissions_cong: "sent v = sent w \<Longrightarrow> submissions v = submissions w"
  by (simp add: submissions_def)

lemma budget_cong:
  "sent v = sent w \<Longrightarrow> typingSubmitted v = typingSubmitted w \<Longrightarrow> budget v = budget w"
  by (simp add: budget_def submissions_def)

lemma runEdge_frame [simp]:
  "sent (runEdge e w) = sent w"
  "playerId (runEdge e w) = playerId w"
  "gameState (runEdge e w) = gameState w"
  by (cases e; simp)+

lemma runEdge_guard:
  "e \<noteq> EnterSpellSelection \<Longrightarrow> typingSubmitted (runEdge e w) = typingSubmitted w"
  by (cases e) simp_all

lemma edges_frame [simp]:
  "sent (foldl (\<lambda>w e. runEdge e w) w es) = sent w"
  "playerId (foldl (\<lambda>w e. runEdge e w) w es) = playerId w"
  "gameState (foldl (\<lambda>w e. runEdge e w) w es) = gameState w"
  by (induction es arbitrary: w; simp)+

lemma edges_guard:
  "EnterSpellSelection \<notin> set es
     \<Longrightarrow> typingSubmitted (foldl (\<lambda>w e. runEdge e w) w es) = typingSubmitted w"
proof (induction es arbitrary: w)
  case Nil
  then show ?case by simp
next
  case (Cons e es)
  have "typingSubmitted (foldl (\<lambda>w e. runEdge e w) (runEdge e w) es)
          = typingSubmitted (runEdge e w)"
    using Cons by simp
  also have "\<dots> = typingSubmitted w"
  proof (rule runEdge_guard)
    show "e \<noteq> EnterSpellSelection" using Cons.prems by auto
  qed
  finally show ?case by simp
qed

lemma phaseEdges_frame [simp]:
  "sent (phaseEdges p q w) = sent w"
  "playerId (phaseEdges p q w) = playerId w"
  "gameState (phaseEdges p q w) = gameState w"
  by (simp_all add: phaseEdges_fold)

lemma edgesFired_member: "e \<in> set (edgesFired p q) \<longleftrightarrow> edgeDue e p q"
  unfolding edgesFired_def by (cases e) (simp_all del: edgeDue.simps)

lemma phaseEdges_guard:
  assumes "q \<noteq> SpellSelection"
  shows "typingSubmitted (phaseEdges p q w) = typingSubmitted w"
proof -
  have "EnterSpellSelection \<notin> set (edgesFired p q)"
    using assms by (simp add: edgesFired_member)
  then show ?thesis
    unfolding phaseEdges_fold by (rule edges_guard)
qed

lemma showUpdate_frame [simp]:
  "sent (showUpdate q w) = sent w"
  "typingSubmitted (showUpdate q w) = typingSubmitted w"
  "playerId (showUpdate q w) = playerId w"
  "gameState (showUpdate q w) = gameState w"
  by (simp_all add: showUpdate_def)

lemma handleGameUpdate_frame [simp]:
  "sent (handleGameUpdate g w) = sent w"
  "playerId (handleGameUpdate g w) = playerId w"
  "gameState (handleGameUpdate g w) = Some g"
  by (simp_all add: handleGameUpdate_def Let_def)

lemma handleGameUpdate_guard:
  "phase g \<noteq> SpellSelection \<Longrightarrow> typingSubmitted (handleGameUpdate g w) = typingSubmitted w"
  by (simp add: handleGameUpdate_def Let_def phaseEdges_guard)

lemma handleJoinedRoom_frame [simp]:
  "sent (handleJoinedRoom i r rs w) = sent w"
  "typingSubmitted (handleJoinedRoom i r rs w) = typingSubmitted w"
  by (simp_all add: handleJoinedRoom_def Let_def split: option.splits)

lemma handleGameUpdate_known:
  assumes "idKnown w"
  shows "handleGameUpdate g w =
           showUpdate (phase g)
             (foldl (\<lambda>w e. runEdge e w) (w\<lparr>gameState := Some g\<rparr>)
                (edgesFired (map_option phase (gameState w)) (phase g)))"
  using assms by (simp add: handleGameUpdate_def Let_def idKnown_def phaseEdges_fold)

lemma idKnown_handleGameUpdate [simp]: "idKnown (handleGameUpdate g w) = idKnown w"
  by (simp add: idKnown_def)

lemma updates_replay:
  assumes "idKnown w"
  shows "updates gs w = replay (map_option phase (gameState w)) gs w"
  using assms
proof (induction gs arbitrary: w)
  case Nil
  then show ?case by (simp add: updates_def)
next
  case (Cons g gs)
  have "updates (g # gs) w = updates gs (handleGameUpdate g w)"
    by (simp add: updates_def)
  also have "\<dots> = replay (Some (phase g)) gs (handleGameUpdate g w)"
    using Cons.IH [of "handleGameUpdate g w"] Cons.prems by simp
  also have "\<dots> = replay (map_option phase (gameState w)) (g # gs) w"
    using handleGameUpdate_known [OF Cons.prems, of g] by simp
  finally show ?case .
qed

lemma edgesFired_unfold:
  "edgesFired p q =
     (if edgeDue EnterSpellSelection p q then [EnterSpellSelection] else []) @
     (if edgeDue LeaveTyping p q then [LeaveTyping] else []) @
     (if edgeDue EnterResolution p q then [EnterResolution] else []) @
     (if edgeDue LeaveResolution p q then [LeaveResolution] else [])"
  unfolding edgesFired_def by (simp del: edgeDue.simps)

lemma edgesFired_count: "count_list (edgesFired p q) e = (if edgeDue e p q then 1 else 0)"
  unfolding edgesFired_unfold by (cases e) (simp_all del: edgeDue.simps)

lemma edgeDue_same: "\<not> edgeDue e (Some q) q"
  by (cases e) simp_all

lemma edgesFired_same: "edgesFired (Some q) q = []"
  unfolding edgesFired_def by (simp add: edgeDue_same del: edgeDue.simps)

lemma firedAlong_count:
  "count_list (firedAlong p qs) e
     = length (filter (\<lambda>pq. edgeDue e (fst pq) (snd pq)) (changes p qs))"
proof (induction qs arbitrary: p)
  case Nil
  then show ?case by (simp add: firedAlong_def)
next
  case (Cons q qs)
  have "firedAlong p (q # qs) = edgesFired p q @ firedAlong (Some q) qs"
    by (simp add: firedAlong_def)
  then show ?case
    using Cons [of "Some q"] by (simp add: edgesFired_count del: edgeDue.simps)
qed


section \<open>The guard of the submission\<close>

lemma budget_update [simp]:
  "budget (w\<lparr>ws := b1\<rparr>) = budget w"
  "budget (w\<lparr>playerId := b2\<rparr>) = budget w"
  "budget (w\<lparr>playerName := b3\<rparr>) = budget w"
  "budget (w\<lparr>roomId := b4\<rparr>) = budget w"
  "budget (w\<lparr>roomState := b5\<rparr>) = budget w"
  "budget (w\<lparr>gameState := b6\<rparr>) = budget w"
  "budget (w\<lparr>selectedSpell := b7\<rparr>) = budget w"
  "budget (w\<lparr>selectedTarget := b8\<rparr>) = budget w"
  "budget (w\<lparr>typingStartTime := b9\<rparr>) = budget w"
  "budget (w\<lparr>now := b10\<rparr>) = budget w"
  "budget (w\<lparr>intervals := b11\<rparr>) = budget w"
  "budget (w\<lparr>nextHandle := b12\<rparr>) = budget w"
  "budget (w\<lparr>pendingAutoSubmits := b13\<rparr>) = budget w"
  "budget (w\<lparr>shownScreen := b14\<rparr>) = budget w"
  "budget (w\<lparr>connectionError := b15\<rparr>) = budget w"
  "budget (w\<lparr>typingInput := b16\<rparr>) = budget w"
  "budget (w\<lparr>typingFeedback := b17\<rparr>) = budget w"
  "budget (w\<lparr>oninput := b18\<rparr>) = budget w"
  "budget (w\<lparr>submitHandlers := b19\<rparr>) = budget w"
  "budget (w\<lparr>timerInterval := b20\<rparr>) = budget w"
  by (simp_all add: budget_def submissions_def)

lemma budget_frames [simp]:
  "budget (stopTimer w) = budget w"
  "budget (showScreen sc w) = budget w"
  "budget (showError m w) = budget w"
  "budget (renderGame w) = budget w"
  "budget (handleJoinedRoom i r rs w) = budget w"
  by (rule budget_cong; simp)+

lemma budget_send: "\<not> isSubmitTyping m \<Longrightarrow> budget (send m w) = budget w"
  by (simp add: budget_def submissions_def send_def)

lemma socketOpen_update [simp]:
  "socketOpen (w\<lparr>typingSubmitted := b\<rparr>) = socketOpen w"
  "socketOpen (stopTimer w) = socketOpen w"
  by (simp_all add: socketOpen_def)

lemma startOrZero_update [simp]:
  "startOrZero (w\<lparr>typingSubmitted := b\<rparr>) = startOrZero w"
  "startOrZero (stopTimer w) = startOrZero w"
  by (simp_all add: startOrZero_def)

lemma submitTyping_again: "typingSubmitted w \<Longrightarrow> submitTyping finished w = w"
  by (simp add: submitTyping_def)

lemma submitTyping_first:
  assumes "\<not> typingSubmitted w"
  shows "typingSubmitted (submitTyping finished w)
     \<and> sent (submitTyping finished w) =
         (if socketOpen w
          then sent w @ [SubmitTyping (typingInput w)
                           (if finished then Some (now w - startOrZero w) else None)]
          else sent w)"
  using assms by (simp add: submitTyping_def Let_def send_def)

lemma fire_first:
  assumes "\<not> typingSubmitted w"
  shows "typingSubmitted (fire t w)
     \<and> sent (fire t w) =
         (if socketOpen w
          then sent w @ [SubmitTyping (typingInput w)
                           (if forced t then None else Some (now w - startOrZero w))]
          else sent w)"
proof (cases t)
  case CountdownExpiry
  have "\<not> typingSubmitted (stopTimer w)" using assms by simp
  from submitTyping_first [OF this, of False]
  show ?thesis using CountdownExpiry assms by (simp add: Let_def)
qed (use assms submitTyping_first [OF assms, of True] in simp_all)

lemma fire_later:
  assumes "typingSubmitted w"
  shows "typingSubmitted (fire t w) \<and> sent (fire t w) = sent w"
  using assms by (cases t) (simp_all add: submitTyping_again Let_def)

lemma fires_later:
  assumes "typingSubmitted w"
  shows "typingSubmitted (fires ts w) \<and> sent (fires ts w) = sent w"
  using assms
proof (induction ts arbitrary: w)
  case Nil
  then show ?case by (simp add: fires_def)
next
  case (Cons t ts)
  have f: "fires (t # ts) w = fires ts (fire t w)" by (simp add: fires_def)
  show ?case
    unfolding f using Cons.IH [of "fire t w"] fire_later [OF Cons.prems, of t] by simp
qed

lemma fires_first:
  assumes "\<not> typingSubmitted w"
  shows "typingSubmitted (fires (t # ts) w)
     \<and> sent (fires (t # ts) w) =
         (if socketOpen w
          then sent w @ [SubmitTyping (typingInput w)
                           (if forced t then None else Some (now w - startOrZero w))]
          else sent w)"
proof -
  have f: "fires (t # ts) w = fires ts (fire t w)" by (simp add: fires_def)
  show ?thesis
    unfolding f using fire_first [OF assms, of t] fires_later [of "fire t w" ts] by simp
qed

lemma budget_submitTyping: "budget (submitTyping finished w) \<le> budget w"
proof (cases "typingSubmitted w")
  case True
  then show ?thesis by (simp add: submitTyping_again)
next
  case False
  then show ?thesis
    using submitTyping_first [OF False, of finished]
    by (simp add: budget_def submissions_def)
qed

lemma budget_fire: "budget (fire t w) \<le> budget w"
proof (cases t)
  case CountdownExpiry
  have "budget (submitTyping False (stopTimer w)) \<le> budget (stopTimer w)"
    by (rule budget_submitTyping)
  then show ?thesis using CountdownExpiry by (simp add: Let_def)
qed (simp_all add: budget_submitTyping)

lemma budget_runCountdown: "budget (runCountdown cb w) \<le> budget w"
proof (cases cb)
  case (Challenge endTime)
  have "budget (submitTyping False (stopTimer w)) \<le> budget (stopTimer w)"
    by (rule budget_submitTyping)
  then show ?thesis using Challenge by (simp add: challengeTick_def Let_def)
next
  case (ResolutionCountdown a b)
  then show ?thesis by (simp add: resolutionTick_def Let_def)
qed

lemma budget_handleGameUpdate:
  assumes "phase g \<noteq> SpellSelection"
  shows "budget (handleGameUpdate g w) = budget w"
  by (rule budget_cong) (simp_all add: handleGameUpdate_guard [OF assms])

lemma budget_joinSubmit: "budget (joinSubmit f oc w) = budget w"
  by (cases oc) (simp_all add: joinSubmit_def Let_def budget_send)

lemma budget_onInput: "budget (onInput t w) = budget w"
  by (simp add: onInput_def Let_def updateTypingFeedback_def)

lemma budget_step:
  assumes "\<not> resets e"
  shows "budget (step e w) \<le> budget w"
proof (cases e)
  case (Server m)
  show ?thesis
  proof (cases m)
    case (GameUpdate g)
    then have "phase g \<noteq> SpellSelection" using assms Server by simp
    then show ?thesis using Server GameUpdate by (simp add: budget_handleGameUpdate)
  qed (use Server in simp_all)
next
  case (Tick h)
  then show ?thesis by (simp add: budget_runCountdown split: option.splits)
next
  case (TypeText v)
  then show ?thesis by (simp add: Let_def budget_onInput split: option.splits)
next
  case ClickSubmit
  then show ?thesis using budget_fire [of ManualButton w] by simp
next
  case PressEnter
  then show ?thesis using budget_fire [of EnterKey w] by simp
next
  case AutoSubmitDue
  then show ?thesis
    using budget_fire [of AutoComplete "w\<lparr>pendingAutoSubmits := pendingAutoSubmits w - 1\<rparr>"]
    by (simp del: fire.simps)
qed (simp_all add: closeSocket_def budget_send budget_joinSubmit)

lemma budget_run:
  assumes "\<forall>e \<in> set es. \<not> resets e"
  shows "budget (run es w) \<le> budget w"
  using assms
proof (induction es arbitrary: w)
  case Nil
  then show ?case by simp
next
  case (Cons e es)
  have r: "run (e # es) w = run es (step e w)" by simp
  have "budget (run es (step e w)) \<le> budget (step e w)" using Cons by simp
  also have "\<dots> \<le> budget w" using Cons.prems by (simp add: budget_step)
  finally show ?case unfolding r .
qed

lemma stopTimer_idle: "timerInterval v = None \<Longrightarrow> stopTimer v = v"
  by (simp add: stopTimer_def)

lemma send_timers [simp]:
  "timerInterval (send m v) = timerInterval v"
  "intervals (send m v) = intervals v"
  by (simp_all add: send_def)

lemma submitTyping_idle:
  assumes "timerInterval v = None"
  shows "intervals (submitTyping finished v) = intervals v
     \<and> timerInterval (submitTyping finished v) = None"
proof (cases "typingSubmitted v")
  case True
  then show ?thesis using assms by (simp add: submitTyping_again)
next
  case False
  let ?m = "SubmitTyping (typingInput v) (if finished then Some (now v - startOrZero v) else None)"
  have e: "submitTyping finished v = stopTimer (send ?m (v\<lparr>typingSubmitted := True\<rparr>))"
    using False by (simp add: submitTyping_def Let_def)
  have "timerInterval (send ?m (v\<lparr>typingSubmitted := True\<rparr>)) = None"
    using assms by simp
  then have "stopTimer (send ?m (v\<lparr>typingSubmitted := True\<rparr>))
               = send ?m (v\<lparr>typingSubmitted := True\<rparr>)"
    by (rule stopTimer_idle)
  then show ?thesis unfolding e using assms by simp
qed

lemma challenge_expiry:
  assumes "oneTimer w" "map_of (intervals w) h = Some (Challenge endTime)"
    "endTime \<le> now w" "\<not> typingSubmitted w"
  shows "intervals (step (Tick h) w) = [] \<and> timerInterval (step (Tick h) w) = None
     \<and> typingSubmitted (step (Tick h) w)
     \<and> sent (step (Tick h) w)
         = (if socketOpen w then sent w @ [SubmitTyping (typingInput w) None] else sent w)"
proof -
  have "(h, Challenge endTime) \<in> set (intervals w)"
    using assms(2) by (rule map_of_SomeD)
  then have t: "timerInterval w = Some h"
    using assms(1) by (rule oneTimer_handle [rotated])
  then have m: "map fst (intervals w) = [h]"
    using assms(1) by (simp add: oneTimer_def)
  then have "filter (\<lambda>p. fst p \<noteq> h) (intervals w) = []"
    by (cases "intervals w") auto
  then have s: "intervals (stopTimer w) = []"
    using t by (simp add: stopTimer_def)
  have n: "\<not> typingSubmitted (stopTimer w)" using assms(4) by simp
  have st: "step (Tick h) w = submitTyping False (stopTimer w)"
    using assms(2,3) n by (simp add: challengeTick_def Let_def)
  have "timerInterval (stopTimer w) = None" by simp
  from submitTyping_idle [OF this, of False]
  have i: "intervals (submitTyping False (stopTimer w)) = []"
    and ti: "timerInterval (submitTyping False (stopTimer w)) = None"
    using s by simp_all
  show ?thesis
    unfolding st using i ti submitTyping_first [OF n, of False] by simp
qed

lemma closed_state:
  "\<not> socketOpen (closeSocket typedState)" "\<not> typingSubmitted (closeSocket typedState)"
  "sent (closeSocket typedState) = [JoinRoom (js ''r1'') (js ''ann'') (JsonDigits 45)]"
  "intervals (closeSocket typedState) = [(1, Challenge 6000)]"
  by (simp_all add: closeSocket_def showError_def typedState_def socketOpen_def)

section \<open>A buffered snapshot and the join message\<close>

lemma renderGame_other_phase:
  assumes "gameState v = Some g" "phase g \<noteq> Typing"
  shows "renderGame v = v"
  using assms by (simp add: renderGame_def split: option.splits)





lemma first_revision_starts_no_countdown:
  assumes "phase g = Resolution"
  shows "intervals (handleJoinedRoomV1 player room rs (w\<lparr>gameState := Some g\<rparr>)) = intervals w"
proof -
  have r: "renderGame v = v" if "gameState v = Some g" for v
    using that by (rule renderGame_other_phase) (simp add: assms)
  show ?thesis
    by (simp add: handleJoinedRoomV1_def Let_def showScreen_def r)
qed

section \<open>Addresses and the join form\<close>

lemma startsWith_Cons:
  "startsWith s (a # p) \<longleftrightarrow> (\<exists>t. s = a # t \<and> startsWith t p)"
  by (cases s) (auto simp: startsWith_def)

lemma schemes_apart:
  "startsWith u (js ''ws://'') \<or> startsWith u (js ''wss://'')
     \<Longrightarrow> \<not> startsWith u (js ''https://'') \<and> \<not> startsWith u (js ''http://'')"
  by (auto simp: js_def startsWith_Cons)

lemma https_not_http:
  "startsWith u (js ''https://'') \<Longrightarrow> \<not> startsWith u (js ''http://'')"
  by (auto simp: js_def startsWith_Cons)

lemma trim_unchanged:
  assumes "s = [] \<or> (\<not> isSpace (hd s) \<and> \<not> isSpace (last s))"
  shows "trim s = s"
proof (cases s)
  case Nil
  then show ?thesis by (simp add: trim_def)
next
  case (Cons a t)
  then have h: "\<not> isSpace (hd s)" "\<not> isSpace (last s)" "s \<noteq> []" using assms by auto
  have d: "dropWhile isSpace s = s" using h(1) Cons by simp
  have "rev s \<noteq> []" "hd (rev s) = last s" using h(3) by (simp_all add: hd_rev)
  then obtain b u where r: "rev s = b # u" "b = last s"
    by (cases "rev s") auto
  have "dropWhile isSpace (b # u) = b # u"
    using h(2) r(2) by simp
  then have "dropWhile isSpace (rev s) = rev s"
    by (simp only: r(1))
  then show ?thesis by (simp add: trim_def d)
qed

lemma parseInt_empty: "parseInt [] = NaN"
  by (simp add: parseInt_def)

lemma join_sent:
  "sent (joinSubmit form outcome w) = sent w
   \<or> sent (joinSubmit form outcome w)
       = sent w @ [JoinRoom (trim (roomIdInput form)) (trim (playerNameInput form))
                     (jsonNumber (timerSecondsOf (timerSecondsInput form)))]"
  by (cases outcome) (simp_all add: joinSubmit_def Let_def send_def showError_def socketOpen_def)

section \<open>A snapshot that arrives before the identity (C1)\<close>




section \<open>Phase edges fire once per transition (C2)\<close>

text \<open>
  What the block of the four conditionals of \<^verbatim>\<open>handleGameUpdate\<close> does to the state, in a
  state that holds at most one timer. \<^verbatim>\<open>stopTimer\<close> then leaves no timer registered.
\<close>

lemma oneTimer_idle: "oneTimer x \<Longrightarrow> timerInterval x = None \<Longrightarrow> intervals x = []"
  by (simp add: oneTimer_def)

lemma stopTimer_clears:
  assumes "oneTimer x"
  shows "intervals (stopTimer x) = []"
proof (cases "timerInterval x")
  case None
  then show ?thesis using assms by (simp add: stopTimer_idle oneTimer_idle)
next
  case (Some h)
  then have "map fst (intervals x) = [h]" using assms by (simp add: oneTimer_def)
  then have "\<forall>c \<in> set (intervals x). fst c = h"
    by (metis list.set_map imageI list.set(1) list.set(2) singletonD empty_iff)
  then have "filter (\<lambda>c. fst c \<noteq> h) (intervals x) = []"
    by (simp add: filter_empty_conv)
  then show ?thesis using Some by (simp add: stopTimer_def)
qed

lemma stopTimer_keeps:
  "selectedSpell (stopTimer x) = selectedSpell x"
  "selectedTarget (stopTimer x) = selectedTarget x"
  "nextHandle (stopTimer x) = nextHandle x"
  "shownScreen (stopTimer x) = shownScreen x"
  by (simp_all add: stopTimer_def split: option.splits)

lemma startResolutionTimer_started:
  assumes "timerInterval x = None" "intervals x = []" "gameState x = Some g"
    "phase_time_remaining_ms g = Some r"
  shows "timerInterval (startResolutionTimer x) = Some (nextHandle x)
     \<and> intervals (startResolutionTimer x) = [(nextHandle x, ResolutionCountdown (now x) r)]"
  using assms by (simp add: startResolutionTimer_def setInterval_def)

lemma startResolutionTimer_no_hint:
  assumes "gameState x = Some g" "phase_time_remaining_ms g = None"
  shows "startResolutionTimer x = x"
  using assms by (simp add: startResolutionTimer_def)

lemma phaseEdges_none:
  assumes "edgesFired p q = []"
  shows "phaseEdges p q v = v"
  using assms by (simp add: phaseEdges_fold)

lemma showUpdate_other_phase:
  assumes "gameState x = Some g" "phase g = q" "q \<noteq> Typing"
  shows "showUpdate q x = x\<lparr>shownScreen := (if q = GameOver then GameoverScreen else GameScreen)\<rparr>"
proof (cases "q = GameOver")
  case True
  then show ?thesis by (simp add: showUpdate_def showScreen_def)
next
  case False
  have "gameState (showScreen GameScreen x) = Some g" using assms(1) by simp
  then have "renderGame (showScreen GameScreen x) = showScreen GameScreen x"
    by (rule renderGame_other_phase) (use assms in simp)
  then show ?thesis using False by (simp add: showUpdate_def showScreen_def)
qed

lemma enter_spell_selection_state:
  assumes "oneTimer v" "q = SpellSelection" "p \<noteq> Some SpellSelection"
  shows "selectedSpell (phaseEdges p q v) = None
     \<and> selectedTarget (phaseEdges p q v) = None
     \<and> \<not> typingSubmitted (phaseEdges p q v)
     \<and> typingStartTime (phaseEdges p q v) = None
     \<and> timerInterval (phaseEdges p q v) = None
     \<and> intervals (phaseEdges p q v) = []"
  using assms by (simp add: phaseEdges_def Let_def stopTimer_clears stopTimer_keeps)

lemma leave_typing_state:
  assumes "oneTimer v" "p = Some Typing" "q \<noteq> Typing"
  shows "typingStartTime (phaseEdges p q v) = None
     \<and> (q \<noteq> Resolution \<longrightarrow> timerInterval (phaseEdges p q v) = None
                               \<and> intervals (phaseEdges p q v) = [])"
  using assms by (simp add: phaseEdges_def Let_def stopTimer_clears startResolutionTimer_def
      setInterval_def split: option.splits)

lemma leave_resolution_state:
  assumes "oneTimer v" "p = Some Resolution" "q \<noteq> Resolution"
  shows "timerInterval (phaseEdges p q v) = None \<and> intervals (phaseEdges p q v) = []"
  using assms by (simp add: phaseEdges_def Let_def stopTimer_clears stopTimer_keeps)

lemma enter_resolution_state:
  assumes "oneTimer v" "q = Resolution" "p \<noteq> Some Resolution" "gameState v = Some g"
  shows "(p = Some Typing \<or> timerInterval v = None) \<and> phase_time_remaining_ms g = Some r
           \<longrightarrow> timerInterval (phaseEdges p q v) = Some (nextHandle v)
             \<and> intervals (phaseEdges p q v) = [(nextHandle v, ResolutionCountdown (now v) r)]"
    and "(p = Some Typing \<or> timerInterval v = None) \<and> phase_time_remaining_ms g = None
           \<longrightarrow> timerInterval (phaseEdges p q v) = None \<and> intervals (phaseEdges p q v) = []"
    and "p \<noteq> Some Typing \<and> timerInterval v \<noteq> None
           \<longrightarrow> timerInterval (phaseEdges p q v) = timerInterval v
             \<and> intervals (phaseEdges p q v) = intervals v"
proof -
  let ?x = "stopTimer (v\<lparr>typingStartTime := None\<rparr>)"
  have x: "timerInterval ?x = None" "intervals ?x = []" "gameState ?x = Some g"
    "nextHandle ?x = nextHandle v" "now ?x = now v"
    using assms(1,4) by (simp_all add: stopTimer_clears stopTimer_keeps)
  have e: "phaseEdges p q v = startResolutionTimer (if p = Some Typing then ?x else v)"
    using assms(2,3) by (simp add: phaseEdges_def Let_def)
  show "(p = Some Typing \<or> timerInterval v = None) \<and> phase_time_remaining_ms g = Some r
           \<longrightarrow> timerInterval (phaseEdges p q v) = Some (nextHandle v)
             \<and> intervals (phaseEdges p q v) = [(nextHandle v, ResolutionCountdown (now v) r)]"
  proof (cases "p = Some Typing")
    case True
    then show ?thesis
      unfolding e using startResolutionTimer_started [OF x(1,2,3), of r] x(4,5) by simp
  next
    case False
    then show ?thesis
      unfolding e
      using startResolutionTimer_started [of v g r] oneTimer_idle [OF assms(1)] assms(4)
      by simp
  qed
  show "(p = Some Typing \<or> timerInterval v = None) \<and> phase_time_remaining_ms g = None
           \<longrightarrow> timerInterval (phaseEdges p q v) = None \<and> intervals (phaseEdges p q v) = []"
  proof (cases "p = Some Typing")
    case True
    then show ?thesis
      unfolding e using startResolutionTimer_no_hint [OF x(3)] x(1,2) by simp
  next
    case False
    then show ?thesis
      unfolding e
      using startResolutionTimer_no_hint [OF assms(4)] oneTimer_idle [OF assms(1)] by simp
  qed
  show "p \<noteq> Some Typing \<and> timerInterval v \<noteq> None
           \<longrightarrow> timerInterval (phaseEdges p q v) = timerInterval v
             \<and> intervals (phaseEdges p q v) = intervals v"
    unfolding e using start_noop [of v] by simp
qed

lemma updates_run: "updates gs w = run (map (\<lambda>g. Server (GameUpdate g)) gs) w"
  by (induction gs arbitrary: w) (simp_all add: updates_def)

lemma idKnown_updates: "idKnown (updates gs w) = idKnown w"
proof (induction gs arbitrary: w)
  case Nil
  then show ?case by (simp add: updates_def)
next
  case (Cons g gs)
  have "updates (g # gs) w = updates gs (handleGameUpdate g w)" by (simp add: updates_def)
  then show ?case using Cons [of "handleGameUpdate g w"] by simp
qed


text \<open>
  Claim C2, as amended. Let the client be in any state it can reach, with the identity known.
  A sequence of \<^verbatim>\<open>game_update\<close> messages is handled by running, for each snapshot, exactly
  the edges that are due between the phase of the previous snapshot and its own, each once,
  and then showing the snapshot; the state after the sequence is again one the client can
  reach with the identity known. Along a whole sequence an edge is run as many times as
  there are updates at which it is due, and between two equal phases no edge is due. For one
  update, with \<open>x\<close> the state when the four conditionals are through (the snapshot is then
  shown, which leaves everything but the screen as it is unless the new phase is the typing
  phase):
  \<^item> when no edge is due, \<open>x\<close> is the state with the snapshot stored and nothing else;
  \<^item> on entering the spell selection, the selected spell, the selected target, the guard and
    the start timestamp are cleared, and no timer is registered any more;
  \<^item> on leaving the typing phase the start timestamp is cleared, and no timer is registered
    any more unless the new phase is the resolution;
  \<^item> on entering the resolution \<^verbatim>\<open>startResolutionTimer\<close> is called: when the typing phase is
    left or no countdown was running, the one timer registered afterwards is the resolution
    countdown of the remaining time of the snapshot, started at the present time, if the
    snapshot carries a remaining time, and no timer is registered if it carries none; a
    countdown that was running, when it is not the typing phase that is left, stays as it is;
  \<^item> on leaving the resolution no timer is registered any more.
\<close>

theorem edge_effects_once_per_transition:
  fixes es :: "event list" and gs :: "game_state list" and g :: game_state
  defines "w \<equiv> run es init"
  defines "p \<equiv> map_option phase (gameState w)"
  defines "q \<equiv> phase g"
  defines "v \<equiv> w\<lparr>gameState := Some g\<rparr>"
  defines "x \<equiv> phaseEdges p q v"
  assumes "idKnown w"
  shows "updates gs w = replay p gs w
     \<and> updates gs w = run (es @ map (\<lambda>g. Server (GameUpdate g)) gs) init
     \<and> idKnown (updates gs w)
     \<and> (\<forall>p' q' e. count_list (edgesFired p' q') e = (if edgeDue e p' q' then 1 else 0))
     \<and> (\<forall>p' qs e. count_list (firedAlong p' qs) e
           = length (filter (\<lambda>pq. edgeDue e (fst pq) (snd pq)) (changes p' qs)))
     \<and> (\<forall>q'. edgesFired (Some q') q' = [])
     \<and> handleGameUpdate g w = showUpdate q x
     \<and> (q \<noteq> Typing \<longrightarrow>
          showUpdate q x = x\<lparr>shownScreen := (if q = GameOver then GameoverScreen else GameScreen)\<rparr>)
     \<and> (edgesFired p q = [] \<longrightarrow> x = v)
     \<and> (q = SpellSelection \<and> p \<noteq> Some SpellSelection \<longrightarrow>
          selectedSpell x = None \<and> selectedTarget x = None \<and> \<not> typingSubmitted x
          \<and> typingStartTime x = None \<and> timerInterval x = None \<and> intervals x = [])
     \<and> (p = Some Typing \<and> q \<noteq> Typing \<longrightarrow>
          typingStartTime x = None
          \<and> (q \<noteq> Resolution \<longrightarrow> timerInterval x = None \<and> intervals x = []))
     \<and> (q = Resolution \<and> p \<noteq> Some Resolution \<longrightarrow>
          (\<forall>r. (p = Some Typing \<or> timerInterval w = None) \<and> phase_time_remaining_ms g = Some r
             \<longrightarrow> timerInterval x = Some (nextHandle w)
               \<and> intervals x = [(nextHandle w, ResolutionCountdown (now w) r)])
          \<and> ((p = Some Typing \<or> timerInterval w = None) \<and> phase_time_remaining_ms g = None
             \<longrightarrow> timerInterval x = None \<and> intervals x = [])
          \<and> (p \<noteq> Some Typing \<and> timerInterval w \<noteq> None
             \<longrightarrow> timerInterval x = timerInterval w \<and> intervals x = intervals w))
     \<and> (p = Some Resolution \<and> q \<noteq> Resolution \<longrightarrow> timerInterval x = None \<and> intervals x = [])"
proof -
  have k: "idKnown w" using assms by simp
  have o: "oneTimer w" unfolding w_def using oneTimer_init by (rule oneTimer_run)
  then have ov: "oneTimer v" by (simp add: v_def)
  have gv: "gameState v = Some g" by (simp add: v_def)
  have gx: "gameState x = Some g" by (simp add: x_def gv)
  have fv: "timerInterval v = timerInterval w" "intervals v = intervals w"
    "nextHandle v = nextHandle w" "now v = now w"
    by (simp_all add: v_def)
  have a: "updates gs w = replay p gs w"
    unfolding p_def using k by (rule updates_replay)
  have a2: "updates gs w = run (es @ map (\<lambda>g. Server (GameUpdate g)) gs) init"
    by (simp add: updates_run run_append w_def)
  have a3: "idKnown (updates gs w)"
    using k by (simp add: idKnown_updates)
  have b: "\<forall>p' q' e. count_list (edgesFired p' q') e = (if edgeDue e p' q' then 1 else 0)"
    using edgesFired_count by simp
  have f: "\<forall>p' qs e. count_list (firedAlong p' qs) e
           = length (filter (\<lambda>pq. edgeDue e (fst pq) (snd pq)) (changes p' qs))"
    using firedAlong_count by simp
  have c: "\<forall>q'. edgesFired (Some q') q' = []"
    using edgesFired_same by simp
  have h: "handleGameUpdate g w = showUpdate q x"
    using k by (simp add: handleGameUpdate_def Let_def idKnown_def x_def v_def p_def q_def)
  have s: "q \<noteq> Typing \<longrightarrow>
          showUpdate q x = x\<lparr>shownScreen := (if q = GameOver then GameoverScreen else GameScreen)\<rparr>"
    using showUpdate_other_phase [OF gx, of q] by (simp add: q_def)
  have n: "edgesFired p q = [] \<longrightarrow> x = v"
    unfolding x_def using phaseEdges_none [of p q v] by simp
  have e1: "q = SpellSelection \<and> p \<noteq> Some SpellSelection \<longrightarrow>
          selectedSpell x = None \<and> selectedTarget x = None \<and> \<not> typingSubmitted x
          \<and> typingStartTime x = None \<and> timerInterval x = None \<and> intervals x = []"
    unfolding x_def using enter_spell_selection_state [OF ov, of q p] by simp
  have e2: "p = Some Typing \<and> q \<noteq> Typing \<longrightarrow>
          typingStartTime x = None
          \<and> (q \<noteq> Resolution \<longrightarrow> timerInterval x = None \<and> intervals x = [])"
    unfolding x_def using leave_typing_state [OF ov, of p q] by simp
  have e3: "q = Resolution \<and> p \<noteq> Some Resolution \<longrightarrow>
          (\<forall>r. (p = Some Typing \<or> timerInterval w = None) \<and> phase_time_remaining_ms g = Some r
             \<longrightarrow> timerInterval x = Some (nextHandle w)
               \<and> intervals x = [(nextHandle w, ResolutionCountdown (now w) r)])
          \<and> ((p = Some Typing \<or> timerInterval w = None) \<and> phase_time_remaining_ms g = None
             \<longrightarrow> timerInterval x = None \<and> intervals x = [])
          \<and> (p \<noteq> Some Typing \<and> timerInterval w \<noteq> None
             \<longrightarrow> timerInterval x = timerInterval w \<and> intervals x = intervals w)"
  proof
    assume d: "q = Resolution \<and> p \<noteq> Some Resolution"
    then have d1: "q = Resolution" and d2: "p \<noteq> Some Resolution" by simp_all
    note t = enter_resolution_state [OF ov d1 d2 gv, folded x_def, unfolded fv]
    show "(\<forall>r. (p = Some Typing \<or> timerInterval w = None) \<and> phase_time_remaining_ms g = Some r
             \<longrightarrow> timerInterval x = Some (nextHandle w)
               \<and> intervals x = [(nextHandle w, ResolutionCountdown (now w) r)])
          \<and> ((p = Some Typing \<or> timerInterval w = None) \<and> phase_time_remaining_ms g = None
             \<longrightarrow> timerInterval x = None \<and> intervals x = [])
          \<and> (p \<noteq> Some Typing \<and> timerInterval w \<noteq> None
             \<longrightarrow> timerInterval x = timerInterval w \<and> intervals x = intervals w)"
      using t by simp
  qed
  have e4: "p = Some Resolution \<and> q \<noteq> Resolution \<longrightarrow> timerInterval x = None \<and> intervals x = []"
    unfolding x_def using leave_resolution_state [OF ov, of p q] by simp
  show ?thesis
    using a a2 a3 b f c h s n e1 e2 e3 e4 by (intro conjI)
qed


theorem edge_effects_once_per_transition_witness:
  "idKnown (run typedRun init)
   \<and> updates [typingGame, resolutionGame, resolutionGame, spellGame] (run typedRun init)
       = replay (Some Typing) [typingGame, resolutionGame, resolutionGame, spellGame]
           (run typedRun init)
   \<and> intervals (run typedRun init) = [(1, Challenge 6000)]
   \<and> timerInterval (handleGameUpdate resolutionGame (run typedRun init)) = Some 2
   \<and> intervals (handleGameUpdate resolutionGame (run typedRun init))
       = [(2, ResolutionCountdown 1700 8000)]
   \<and> typingStartTime (handleGameUpdate resolutionGame (run typedRun init)) = None
   \<and> timerInterval (handleGameUpdate spellGame (run typedRun init)) = None
   \<and> intervals (handleGameUpdate spellGame (run typedRun init)) = []
   \<and> handleGameUpdate typingGame (run typedRun init)
       = showUpdate Typing (run typedRun init\<lparr>gameState := Some typingGame\<rparr>)"
proof -
  have h: "idKnown (run typedRun init)"
    by (simp add: run_typedRun typedState_def idKnown_def js_def)
  have f: "map_option phase (gameState (run typedRun init)) = Some Typing"
    "intervals (run typedRun init) = [(1, Challenge 6000)]"
    "nextHandle (run typedRun init) = 2" "now (run typedRun init) = 1700"
    by (simp_all add: run_typedRun typedState_def typingGame_def)
  have g: "phase resolutionGame = Resolution"
    "phase_time_remaining_ms resolutionGame = Some 8000"
    "phase spellGame = SpellSelection" "phase typingGame = Typing"
    by (simp_all add: resolutionGame_def spellGame_def typingGame_def)
  have n: "edgesFired (Some Typing) Typing = []" by (rule edgesFired_same)
  note r = edge_effects_once_per_transition
    [where es = typedRun and g = resolutionGame
       and gs = "[typingGame, resolutionGame, resolutionGame, spellGame]", OF h]
  note s = edge_effects_once_per_transition
    [where es = typedRun and g = spellGame and gs = "[]", OF h]
  note t = edge_effects_once_per_transition
    [where es = typedRun and g = typingGame and gs = "[]", OF h]
  show ?thesis
    using r s t h f g n by simp
qed

text \<open>
  Claim C2 as stated fails on entering the resolution with a snapshot that carries no
  \<^verbatim>\<open>phase_time_remaining_ms\<close>: the identity is known, the phase changes from the typing phase
  to the resolution, and no resolution countdown is started.
\<close>

theorem enter_resolution_without_hint_counterexample:
  "idKnown (run typedRun init)
   \<and> map_option phase (gameState (run typedRun init)) = Some Typing
   \<and> phase bareResolutionGame = Resolution
   \<and> timerInterval (handleGameUpdate bareResolutionGame (run typedRun init)) = None
   \<and> intervals (handleGameUpdate bareResolutionGame (run typedRun init)) = []"
  unfolding run_typedRun by code_simp

section \<open>One submission per typing phase (C3)\<close>

text \<open>
  Claim C3, as amended. A call of \<^verbatim>\<open>submitTyping\<close> that finds the guard set changes nothing.
  When the guard is not set and submit triggers fire, whichever and however many (the
  button, the Enter key, the automatic submission, the expiry of the countdown), the first
  one sets the guard and hands one \<^verbatim>\<open>submit_typing\<close> message to \<^verbatim>\<open>send\<close>, and the later ones
  send nothing: with the socket open exactly one message is written, the one of the first
  trigger; with the socket not open \<^verbatim>\<open>send\<close> drops it and none is written, the guard being
  set all the same. Over any sequence of events that holds no snapshot of the spell
  selection phase (the only event that resets the guard), at most one message is written,
  and none when the guard was set before.
\<close>

theorem one_submission_per_typing_phase:
  "(typingSubmitted w \<longrightarrow> submitTyping finished w = w)
   \<and> (\<not> typingSubmitted w \<and> socketOpen w \<longrightarrow>
        submissions (fires (t # ts) w)
          = submissions w @ [SubmitTyping (typingInput w)
                               (if forced t then None else Some (now w - startOrZero w))])
   \<and> (\<not> typingSubmitted w \<and> \<not> socketOpen w \<longrightarrow>
        submissions (fires (t # ts) w) = submissions w \<and> typingSubmitted (fires (t # ts) w))
   \<and> ((\<forall>e \<in> set es. \<not> resets e) \<longrightarrow>
        length (submissions (run es w))
          \<le> length (submissions w) + (if typingSubmitted w then 0 else 1))"
proof -
  have a: "typingSubmitted w \<longrightarrow> submitTyping finished w = w"
    by (simp add: submitTyping_again)
  have b: "\<not> typingSubmitted w \<and> socketOpen w \<longrightarrow>
        submissions (fires (t # ts) w)
          = submissions w @ [SubmitTyping (typingInput w)
                               (if forced t then None else Some (now w - startOrZero w))]"
    using fires_first [of w t ts] by (simp add: submissions_def)
  have c: "\<not> typingSubmitted w \<and> \<not> socketOpen w \<longrightarrow>
        submissions (fires (t # ts) w) = submissions w \<and> typingSubmitted (fires (t # ts) w)"
    using fires_first [of w t ts] by (simp add: submissions_def)
  have d: "(\<forall>e \<in> set es. \<not> resets e) \<longrightarrow>
        length (submissions (run es w))
          \<le> length (submissions w) + (if typingSubmitted w then 0 else 1)"
  proof
    assume "\<forall>e \<in> set es. \<not> resets e"
    then have "budget (run es w) \<le> budget w" by (rule budget_run)
    moreover have "length (submissions (run es w)) \<le> budget (run es w)"
      by (simp add: budget_def)
    ultimately show "length (submissions (run es w))
          \<le> length (submissions w) + (if typingSubmitted w then 0 else 1)"
      by (simp add: budget_def)
  qed
  show ?thesis using a b c d by (intro conjI)
qed

theorem one_submission_per_typing_phase_witness:
  "\<not> typingSubmitted (run typedRun init) \<and> socketOpen (run typedRun init)
   \<and> submissions (fires [ManualButton, EnterKey, AutoComplete, CountdownExpiry]
                    (run typedRun init))
       = [SubmitTyping (js ''ab'') (Some 700)]
   \<and> length (submissions (run (typedRun @ [ClickSubmit, PressEnter, Elapse 5000, Tick 1]) init))
       \<le> 1"
proof -
  have h: "\<not> typingSubmitted (run typedRun init)" "socketOpen (run typedRun init)"
    by (simp_all add: run_typedRun typedState_def socketOpen_def)
  have v: "submissions (run typedRun init) = []" "typingInput (run typedRun init) = js ''ab''"
    "now (run typedRun init) - startOrZero (run typedRun init) = 700"
    by (simp_all add: run_typedRun typedState_def submissions_def startOrZero_def)
  have n: "\<forall>e \<in> set (typedRun @ [ClickSubmit, PressEnter, Elapse 5000, Tick 1]). \<not> resets e"
    by (simp add: typedRun_def typingRun_def typingGame_def)
  have i: "submissions init = []" "\<not> typingSubmitted init"
    by (simp_all add: submissions_def init_def)
  have "submissions (fires [ManualButton, EnterKey, AutoComplete, CountdownExpiry]
                    (run typedRun init))
       = [SubmitTyping (js ''ab'') (Some 700)]"
    using one_submission_per_typing_phase
      [of "run typedRun init" _ ManualButton "[EnterKey, AutoComplete, CountdownExpiry]"] h v
    by simp
  moreover have "length (submissions (run (typedRun @ [ClickSubmit, PressEnter, Elapse 5000, Tick 1]) init))
       \<le> 1"
    using one_submission_per_typing_phase
      [of init _ _ _ "typedRun @ [ClickSubmit, PressEnter, Elapse 5000, Tick 1]"] n i
    by simp
  ultimately show ?thesis using h by simp
qed

text \<open>
  The claim as it is written, exactly one message whatever the triggers, fails when the
  socket has closed: four triggers fire, the guard was not set, and no message is written.
\<close>

theorem one_submission_closed_socket_counterexample:
  "\<not> typingSubmitted (run closedRun init)
   \<and> submissions (fires [ManualButton, EnterKey, AutoComplete, CountdownExpiry]
                    (run closedRun init)) = []"
  using fires_first [of "closeSocket typedState" ManualButton
      "[EnterKey, AutoComplete, CountdownExpiry]"]
  by (simp add: run_closedRun closed_state submissions_def)

section \<open>The countdown reaching zero (C4)\<close>

text \<open>
  Claim C4, as amended. In a state reached from the initial one, when the interval timer of
  a challenge countdown fires at or after its end time and the guard is not set, the
  countdown stops (no timer is left and the handle is null), the guard is set, and with the
  socket open exactly one message is written: a \<^verbatim>\<open>submit_typing\<close> whose text is the content
  of the typing input and whose completion time is null. With the socket not open the
  message is dropped by \<^verbatim>\<open>send\<close> and nothing is written.
\<close>

theorem countdown_expiry_forces_submission:
  assumes "w = run es init"
  shows "map_of (intervals w) h = Some (Challenge endTime) \<and> endTime \<le> now w
         \<and> \<not> typingSubmitted w
     \<longrightarrow> intervals (step (Tick h) w) = [] \<and> timerInterval (step (Tick h) w) = None
         \<and> typingSubmitted (step (Tick h) w)
         \<and> sent (step (Tick h) w)
             = (if socketOpen w then sent w @ [SubmitTyping (typingInput w) None] else sent w)"
proof -
  have "oneTimer w" unfolding assms using oneTimer_init by (rule oneTimer_run)
  then show ?thesis using challenge_expiry [of w h endTime] by blast
qed

theorem countdown_expiry_forces_submission_witness:
  "map_of (intervals (run (typedRun @ [Elapse 4300]) init)) 1 = Some (Challenge 6000)
   \<and> 6000 \<le> now (run (typedRun @ [Elapse 4300]) init)
   \<and> \<not> typingSubmitted (run (typedRun @ [Elapse 4300]) init)
   \<and> socketOpen (run (typedRun @ [Elapse 4300]) init)
   \<and> intervals (step (Tick 1) (run (typedRun @ [Elapse 4300]) init)) = []
   \<and> sent (step (Tick 1) (run (typedRun @ [Elapse 4300]) init))
       = sent (run (typedRun @ [Elapse 4300]) init) @ [SubmitTyping (js ''ab'') None]"
proof -
  have r: "run (typedRun @ [Elapse 4300]) init = typedState\<lparr>now := 6000\<rparr>"
    by (simp add: run_append run_typedRun typedState_def)
  have h: "map_of (intervals (typedState\<lparr>now := 6000\<rparr>)) 1 = Some (Challenge 6000)"
    "6000 \<le> now (typedState\<lparr>now := 6000\<rparr>)"
    "\<not> typingSubmitted (typedState\<lparr>now := 6000\<rparr>)"
    "socketOpen (typedState\<lparr>now := 6000\<rparr>)"
    "typingInput (typedState\<lparr>now := 6000\<rparr>) = js ''ab''"
    by (simp_all add: typedState_def socketOpen_def)
  show ?thesis
    unfolding r
    using countdown_expiry_forces_submission
      [of "typedState\<lparr>now := 6000\<rparr>" "typedRun @ [Elapse 4300]" 1 6000] h r
    by simp
qed

text \<open>
  The claim as it is written fails when the socket has closed: the countdown is at zero, the
  guard is not set, and the tick writes no message.
\<close>

theorem countdown_expiry_closed_socket_counterexample:
  "map_of (intervals (run (closedRun @ [Elapse 4300]) init)) 1 = Some (Challenge 6000)
   \<and> 6000 \<le> now (run (closedRun @ [Elapse 4300]) init)
   \<and> \<not> typingSubmitted (run (closedRun @ [Elapse 4300]) init)
   \<and> submissions (step (Tick 1) (run (closedRun @ [Elapse 4300]) init)) = []"
proof -
  let ?w = "closeSocket typedState\<lparr>now := 6000\<rparr>"
  have r: "run (closedRun @ [Elapse 4300]) init = ?w"
    by (simp add: run_append run_closedRun closeSocket_def showError_def typedState_def)
  have h: "map_of (intervals ?w) 1 = Some (Challenge 6000)" "6000 \<le> now ?w"
    "\<not> typingSubmitted ?w" "\<not> socketOpen ?w" "sent ?w = [JoinRoom (js ''r1'') (js ''ann'') (JsonDigits 45)]"
    by (simp_all add: closeSocket_def showError_def typedState_def socketOpen_def)
  have o: "oneTimer ?w"
    by (simp add: oneTimer_def closeSocket_def showError_def typedState_def)
  show ?thesis
    unfolding r using challenge_expiry [OF o h(1,2,3)] h by (simp add: submissions_def)
qed

section \<open>Word grouping of the typing diff (C5)\<close>

text \<open>
  Claim C5. The diff is grouped by words: the words before the one in progress are
  completed, the word in progress is compared position by position, the later words are
  pending, and the whitespace runs of the target are passed as they are. For a target that
  does not begin with whitespace the code computes exactly that (\<open>diff_as_specified\<close>). For
  a target that begins with whitespace it does not: \<^verbatim>\<open>split\<close> yields an empty first piece,
  the loop takes it for a word and counts it, and every word of the target is compared
  under the index of the word after it. With the target \<^verbatim>\<open>" ab"\<close> and the typed text
  \<^verbatim>\<open>"a"\<close> the word in progress is rendered pending in both characters, where the
  description, and the code on the target \<^verbatim>\<open>"ab"\<close>, render the first character correct.
\<close>

theorem leading_whitespace_breaks_word_grouping:
  "feedbackHtml (js '' ab'') (js ''a'') = [Raw (js '' ''), Span Pending 0x61, Span Pending 0x62]
   \<and> specDiff (js '' ab'') (js ''a'') = [Raw (js '' ''), Span Correct 0x61, Span Pending 0x62]
   \<and> feedbackHtml (js ''ab'') (js ''a'') = [Span Correct 0x61, Span Pending 0x62]"
  by code_simp

section \<open>The diff of a text with itself (C6)\<close>

text \<open>
  Claim C6. The feedback written depends on the two arguments only
  (\<open>diff_is_pure\<close>), and with nothing typed every character is pending
  (\<open>diff_untyped_pending\<close>). A target compared with itself has every character correct or
  completed when it does not begin with whitespace (\<open>diff_self_settled\<close>). When it does,
  the empty first piece of \<^verbatim>\<open>split\<close> shifts the word indices by one, as under C5: the
  target \<^verbatim>\<open>" ab cd"\<close> typed exactly has its first word rendered incorrect and its second
  pending, where the same text without the leading blank is rendered completed and
  correct.
\<close>

theorem leading_whitespace_breaks_self_diff:
  "feedbackHtml (js '' ab cd'') (js '' ab cd'')
     = [Raw (js '' ''), Span Incorrect 0x61, Span Incorrect 0x62, Raw (js '' ''),
        Span Pending 0x63, Span Pending 0x64]
   \<and> feedbackHtml (js ''ab cd'') (js ''ab cd'')
     = [Span Completed 0x61, Span Completed 0x62, Raw (js '' ''),
        Span Correct 0x63, Span Correct 0x64]"
  by code_simp

section \<open>Address normalisation (C7)\<close>

text \<open>
  Claim C7, as amended. \<^verbatim>\<open>connect\<close> first strips the whitespace at both ends of the address,
  and the stripped address is then mapped as the claim says: a prefix \<^verbatim>\<open>https://\<close> is
  replaced by \<^verbatim>\<open>wss://\<close>, a prefix \<^verbatim>\<open>http://\<close> by \<^verbatim>\<open>ws://\<close>, an address with none of the
  four prefixes gets \<^verbatim>\<open>ws://\<close> prepended, and an address that starts with \<^verbatim>\<open>ws://\<close> or
  \<^verbatim>\<open>wss://\<close> is returned as it is. An address with no whitespace at its ends is its own
  stripped form.
\<close>

theorem normalizeUrl_of_trimmed:
  "(startsWith (trim address) (js ''https://'')
      \<longrightarrow> normalizeUrl address = js ''wss://'' @ drop 8 (trim address))
   \<and> (startsWith (trim address) (js ''http://'')
      \<longrightarrow> normalizeUrl address = js ''ws://'' @ drop 7 (trim address))
   \<and> (\<not> startsWith (trim address) (js ''https://'') \<and> \<not> startsWith (trim address) (js ''http://'')
       \<and> \<not> startsWith (trim address) (js ''ws://'') \<and> \<not> startsWith (trim address) (js ''wss://'')
      \<longrightarrow> normalizeUrl address = js ''ws://'' @ trim address)
   \<and> (startsWith (trim address) (js ''ws://'') \<or> startsWith (trim address) (js ''wss://'')
      \<longrightarrow> normalizeUrl address = trim address)
   \<and> (address = [] \<or> (\<not> isSpace (hd address) \<and> \<not> isSpace (last address))
      \<longrightarrow> trim address = address)"
  using schemes_apart [of "trim address"] https_not_http [of "trim address"]
    trim_unchanged [of address]
  by (auto simp: normalizeUrl_def Let_def)

theorem normalizeUrl_of_trimmed_witness:
  "normalizeUrl (js '' https://example.com '') = js ''wss://example.com''
   \<and> normalizeUrl (js ''http://example.com'') = js ''ws://example.com''
   \<and> normalizeUrl (js ''example.com'') = js ''ws://example.com''
   \<and> normalizeUrl (js ''ws://x'') = js ''ws://x''
   \<and> normalizeUrl (js ''wss://x'') = js ''wss://x''"
proof -
  have t: "trim (js '' https://example.com '') = js ''https://example.com''"
    "trim (js ''http://example.com'') = js ''http://example.com''"
    "trim (js ''example.com'') = js ''example.com''"
    "trim (js ''ws://x'') = js ''ws://x''"
    "trim (js ''wss://x'') = js ''wss://x''"
    by (simp_all add: trim_def js_def isSpace_def)
  have p: "startsWith (js ''https://example.com'') (js ''https://'')"
    "startsWith (js ''http://example.com'') (js ''http://'')"
    "\<not> startsWith (js ''example.com'') (js ''https://'') \<and> \<not> startsWith (js ''example.com'') (js ''http://'')
       \<and> \<not> startsWith (js ''example.com'') (js ''ws://'') \<and> \<not> startsWith (js ''example.com'') (js ''wss://'')"
    "startsWith (js ''ws://x'') (js ''ws://'')"
    "startsWith (js ''wss://x'') (js ''wss://'')"
    by (simp_all add: startsWith_def js_def)
  have d: "js ''wss://'' @ drop 8 (js ''https://example.com'') = js ''wss://example.com''"
    "js ''ws://'' @ drop 7 (js ''http://example.com'') = js ''ws://example.com''"
    "js ''ws://'' @ js ''example.com'' = js ''ws://example.com''"
    by (simp_all add: js_def)
  show ?thesis
    using normalizeUrl_of_trimmed [of "js '' https://example.com ''"]
      normalizeUrl_of_trimmed [of "js ''http://example.com''"]
      normalizeUrl_of_trimmed [of "js ''example.com''"]
      normalizeUrl_of_trimmed [of "js ''ws://x''"]
      normalizeUrl_of_trimmed [of "js ''wss://x''"]
    unfolding t using p d by simp
qed

text \<open>
  The claim as it is written, for every address, fails on an address with whitespace at an
  end: it starts with \<^verbatim>\<open>ws://\<close> and does not pass through unchanged.
\<close>

theorem normalizeUrl_untrimmed_counterexample:
  "startsWith (js ''ws://x '') (js ''ws://'') \<and> normalizeUrl (js ''ws://x '') \<noteq> js ''ws://x ''"
  by (simp add: normalizeUrl_def startsWith_def trim_def js_def isSpace_def)

section \<open>Starting a countdown while one runs (C8)\<close>

text \<open>
  Claim C8. In every state whose timer handle is not null, \<^verbatim>\<open>startTimer\<close> and
  \<^verbatim>\<open>startResolutionTimer\<close> return the state as it is. In every state the client reaches
  from its initial state, by any sequence of events, the browser holds at most one
  countdown timer, and it is the one whose handle the state holds: the challenge countdown
  and the resolution countdown are never active together.
\<close>

theorem start_is_noop_while_running:
  "(timerInterval w \<noteq> None \<longrightarrow> startTimer durationMs w = w \<and> startResolutionTimer w = w)
   \<and> length (intervals (run es init)) \<le> 1
   \<and> (\<forall>h cb. (h, cb) \<in> set (intervals (run es init))
         \<longrightarrow> timerInterval (run es init) = Some h)"
  using start_noop [of w durationMs] oneTimer_length [OF oneTimer_run [OF oneTimer_init, of es]]
    oneTimer_handle [OF oneTimer_run [OF oneTimer_init, of es]]
  by blast

theorem start_is_noop_while_running_witness:
  "timerInterval (run typedRun init) \<noteq> None
   \<and> startTimer 7000 (run typedRun init) = run typedRun init
   \<and> startResolutionTimer (run typedRun init) = run typedRun init
   \<and> intervals (run typedRun init) = [(1, Challenge 6000)]"
proof -
  have h: "timerInterval (run typedRun init) \<noteq> None"
    by (simp add: run_typedRun typedState_def)
  have i: "intervals (run typedRun init) = [(1, Challenge 6000)]"
    by (simp add: run_typedRun typedState_def)
  show ?thesis
    using start_is_noop_while_running [of "run typedRun init" 7000 typedRun] h i by blast
qed

section \<open>The typing diff keeps the target (C9)\<close>

text \<open>
  Claim C9. For every target and every typed string, the output of the typing diff carries
  exactly the characters of the target, in their order: the texts of its parts, put
  together, are the target. Every part is either a run of whitespace of the target, passed
  as it is, or one character that is not whitespace with one class, so that the classified
  characters are the characters of the target that are not whitespace, each once. The typed
  string contributes no character: with the classes forgotten, the output is the same for
  any two typed strings.
\<close>

theorem typing_diff_keeps_target:
  "concat (map pieceText (feedbackHtml expected typed)) = expected
   \<and> list_all wellFormed (feedbackHtml expected typed)
   \<and> concat (map spanChar (feedbackHtml expected typed))
       = filter (\<lambda>c. \<not> isSpace c) expected
   \<and> map erase (feedbackHtml expected typed) = map erase (feedbackHtml expected typed')"
proof -
  have "concat (map spanChar (feedbackHtml expected typed))
          = filter (\<lambda>c. \<not> isSpace c) expected"
    using spanChars_wellFormed [OF wellFormed_feedbackHtml, of expected typed]
    by (simp only: text_feedbackHtml)
  moreover have "map erase (feedbackHtml expected typed)
                   = map erase (feedbackHtml expected typed')"
    by (simp only: erase_feedbackHtml)
  ultimately show ?thesis
    using text_feedbackHtml wellFormed_feedbackHtml by blast
qed

section \<open>The timer field of the join message (C10)\<close>

text \<open>
  The conversion of the digits to a double: exact below \<^verbatim>\<open>2^53\<close>, to the nearest double with
  ties to even above (\<^verbatim>\<open>2^53 + 1\<close> goes down to \<^verbatim>\<open>2^53\<close>, \<^verbatim>\<open>2^53 + 3\<close> goes up to \<^verbatim>\<open>2^53 + 4\<close>),
  and infinite from \<^verbatim>\<open>2^1024 - 2^970\<close> on, which a run of 310 nines exceeds.
\<close>

declare bitLength.simps [simp del]

lemma toDouble_exact: "n < 9007199254740992 \<Longrightarrow> toDouble n = Some n"
  by (simp add: toDouble_def)

lemma toDouble_overflow: "2 ^ 1024 - 2 ^ 970 \<le> n \<Longrightarrow> toDouble n = None"
  by (simp add: toDouble_def)

lemma toDouble_tie: "toDouble 9007199254740993 = Some 9007199254740992"
proof -
  have "bitLength 9007199254740993 = 54" by (simp add: bitLength.simps)
  then show ?thesis by (simp add: toDouble_def roundTo53_def)
qed

lemma toDouble_up: "toDouble 9007199254740995 = Some 9007199254740996"
proof -
  have "bitLength 9007199254740995 = 54" by (simp add: bitLength.simps)
  then show ?thesis by (simp add: toDouble_def roundTo53_def)
qed

lemma digit_nine: "digitValue 0x39 = Some 9" "isDigitOf 10 0x39" "\<not> isSpace 0x39"
  by (simp_all add: digitValue_def isDigitOf_def isSpace_def)

lemma digitsValue_nines_from:
  "foldl (\<lambda>a c. a * int 10 + (case digitValue c of None \<Rightarrow> 0 | Some v \<Rightarrow> int v)) a (replicate k 0x39)
     = (a + 1) * 10 ^ k - 1"
proof (induction k arbitrary: a)
  case 0
  then show ?case by simp
next
  case (Suc k)
  have "foldl (\<lambda>a c. a * int 10 + (case digitValue c of None \<Rightarrow> 0 | Some v \<Rightarrow> int v)) a
          (replicate (Suc k) 0x39)
      = foldl (\<lambda>a c. a * int 10 + (case digitValue c of None \<Rightarrow> 0 | Some v \<Rightarrow> int v))
          (a * int 10 + 9) (replicate k 0x39)"
    by (simp only: replicate_Suc foldl_Cons digit_nine option.case) simp
  also have "\<dots> = (a * int 10 + 9 + 1) * 10 ^ k - 1"
    by (rule Suc)
  also have "\<dots> = (a + 1) * 10 ^ Suc k - 1"
    by (simp add: algebra_simps)
  finally show ?case .
qed

lemma digitsValue_nines: "digitsValue 10 (replicate k 0x39) = 10 ^ k - 1"
  using digitsValue_nines_from [of 0 k] by (simp add: digitsValue_def)

lemma parseInt_nines:
  "parseInt (replicate (Suc k) 0x39) =
     (case toDouble (10 ^ Suc k - 1) of None \<Rightarrow> PosInfinity | Some d \<Rightarrow> Finite d)"
proof -
  have t: "takeWhile (isDigitOf 10) (replicate (Suc k) 0x39) = replicate (Suc k) 0x39"
    by (simp add: digit_nine del: replicate_Suc)
  have d: "dropWhile isSpace (replicate (Suc k) (0x39 :: jschar)) = replicate (Suc k) 0x39"
    by (simp add: digit_nine)
  have h: "\<not> (take 2 (replicate (Suc k) (0x39 :: jschar)) = js ''0x''
             \<or> take 2 (replicate (Suc k) (0x39 :: jschar)) = js ''0X'')"
    by (cases k) (simp_all add: js_def)
  have hd: "hd (replicate (Suc k) (0x39 :: jschar)) = 0x39" by simp
  show ?thesis
    unfolding parseInt_def Let_def d
    using h t digitsValue_nines [of "Suc k"]
    by (simp only: hd if_False if_True simp_thms)
       (simp del: replicate_Suc power_Suc split: option.split)
qed

lemma parseInt_huge: "parseInt (replicate 310 0x39) = PosInfinity"
proof -
  have "(310::nat) = Suc 309" by simp
  then have "parseInt (replicate 310 0x39)
      = (case toDouble (10 ^ Suc 309 - 1) of None \<Rightarrow> PosInfinity | Some d \<Rightarrow> Finite d)"
    using parseInt_nines [of 309] by simp
  moreover have "toDouble (10 ^ Suc 309 - 1) = None"
    by (rule toDouble_overflow) simp
  ultimately show ?thesis by simp
qed


lemma parseInt_tie: "parseInt (js ''9007199254740993'') = Finite 9007199254740992"
proof -
  have "bitLength 9007199254740993 = 54" by (simp add: bitLength.simps)
  then show ?thesis
    by (simp add: parseInt_def js_def isSpace_def isDigitOf_def digitValue_def digitsValue_def
        toDouble_def roundTo53_def)
qed

text \<open>
  Claim C10, as amended. Whenever a submission of the join form writes a message, the message
  is \<^verbatim>\<open>join_room\<close> with the trimmed room and name, and its \<^verbatim>\<open>timer_seconds\<close> is
  \<^item> the number \<^verbatim>\<open>parseInt\<close> returns for the timer input, when that is a finite number other
    than zero: written in full when its magnitude is below \<^verbatim>\<open>2^53\<close>, and as the shortest decimal
    that reads back as that double otherwise;
  \<^item> 30 when the input is empty, when \<^verbatim>\<open>parseInt\<close> returns NaN, and when it returns 0;
  \<^item> \<^verbatim>\<open>null\<close> when \<^verbatim>\<open>parseInt\<close> returns an infinity, which is truthy and which
    \<^verbatim>\<open>JSON.stringify\<close> writes as \<^verbatim>\<open>null\<close>.
\<close>

theorem join_timer_seconds:
  assumes "sent (joinSubmit form outcome w) = sent w @ [m]"
  shows "m = JoinRoom (trim (roomIdInput form)) (trim (playerNameInput form)) (timer_seconds m)
     \<and> (\<forall>n. parseInt (timerSecondsInput form) = Finite n \<and> n \<noteq> 0 \<and> \<bar>n\<bar> < 9007199254740992
            \<longrightarrow> timer_seconds m = JsonDigits n)
     \<and> (\<forall>n. parseInt (timerSecondsInput form) = Finite n \<and> 9007199254740992 \<le> \<bar>n\<bar>
            \<longrightarrow> timer_seconds m = JsonShortest n)
     \<and> (timerSecondsInput form = [] \<or> parseInt (timerSecondsInput form) = NaN
          \<or> parseInt (timerSecondsInput form) = Finite 0 \<longrightarrow> timer_seconds m = JsonDigits 30)
     \<and> (parseInt (timerSecondsInput form) = PosInfinity
          \<or> parseInt (timerSecondsInput form) = NegInfinity \<longrightarrow> timer_seconds m = JsonNull)"
proof -
  have m: "m = JoinRoom (trim (roomIdInput form)) (trim (playerNameInput form))
                 (jsonNumber (timerSecondsOf (timerSecondsInput form)))"
    using join_sent [of form outcome w] assms by auto
  then have t: "timer_seconds m = jsonNumber (timerSecondsOf (timerSecondsInput form))" by simp
  show ?thesis
    using m t parseInt_empty by (auto simp: timerSecondsOf_def)
qed

theorem join_timer_seconds_witness:
  "sent (joinSubmit joinForm Opened init)
     = sent init @ [JoinRoom (js ''r1'') (js ''ann'') (JsonDigits 45)]
   \<and> parseInt (timerSecondsInput joinForm) = Finite 45
   \<and> timer_seconds (JoinRoom (js ''r1'') (js ''ann'') (JsonDigits 45)) = JsonDigits 45
   \<and> parseInt (js ''abc'') = NaN \<and> parseInt (js ''0'') = Finite 0
   \<and> parseInt (js ''-0'') = Finite 0 \<and> parseInt (js ''0x1e'') = Finite 30
   \<and> parseInt (js '' -7px'') = Finite (- 7)"
proof -
  have s: "sent (joinSubmit joinForm Opened init)
             = sent init @ [JoinRoom (js ''r1'') (js ''ann'') (JsonDigits 45)]"
    by code_simp
  have p: "parseInt (timerSecondsInput joinForm) = Finite 45" "parseInt (js ''abc'') = NaN"
    "parseInt (js ''0'') = Finite 0" "parseInt (js ''-0'') = Finite 0"
    "parseInt (js ''0x1e'') = Finite 30" "parseInt (js '' -7px'') = Finite (- 7)"
    by code_simp+
  show ?thesis
    using join_timer_seconds [OF s] s p by simp
qed

text \<open>
  Claim C10 as stated fails for a timer input that \<^verbatim>\<open>parseInt\<close> reads as \<^verbatim>\<open>Infinity\<close>. For a run
  of 310 nines the parse is a number other than zero, and the \<^verbatim>\<open>timer_seconds\<close> of the frame
  is neither that number nor 30: it is \<^verbatim>\<open>null\<close>.
\<close>

theorem join_timer_overflow_counterexample:
  "parseInt (replicate 310 0x39) = PosInfinity
   \<and> sent (joinSubmit (joinForm\<lparr>timerSecondsInput := replicate 310 0x39\<rparr>) Opened init)
       = [JoinRoom (js ''r1'') (js ''ann'') JsonNull]"
proof -
  have t: "trim (js ''ann'') = js ''ann''" "trim (js ''r1'') = js ''r1''"
    "trim (js ''example.com'') = js ''example.com''"
    by code_simp+
  have n: "js ''ann'' \<noteq> []" "js ''r1'' \<noteq> []" "js ''example.com'' \<noteq> []"
    by (simp_all add: js_def)
  have "sent (joinSubmit (joinForm\<lparr>timerSecondsInput := replicate 310 0x39\<rparr>) Opened init)
       = [JoinRoom (js ''r1'') (js ''ann'') JsonNull]"
    using t n parseInt_huge
    by (simp add: joinSubmit_def joinForm_def Let_def timerSecondsOf_def send_def socketOpen_def
        init_def)
  then show ?thesis using parseInt_huge by simp
qed

end
